theory Spec2Isabelle
  imports Complex_Main "HOL-Library.Sublist" "HOL-Library.Word"
begin

section \<open>JavaScript values as the handlers see them\<close>

text \<open>
  The plugin is TypeScript running on the JavaScript number and string types.  A number is
  modelled by its exact value: every finite double is a rational, and the comparisons the
  handlers make (\<open>>=\<close>, \<open>Math.min\<close>) depend on that value only.  \<open>NaN\<close> and the two
  infinities are kept as values of their own, since \<open>Number(...)\<close> produces them and every
  comparison with \<open>NaN\<close> is false.
\<close>

datatype jsnum = NaN | NegInf | Fin rat | PosInf

text \<open>\<open>a >= b\<close> on numbers.\<close>

fun js_ge :: "jsnum \<Rightarrow> jsnum \<Rightarrow> bool" where
  "js_ge NaN b = False"
| "js_ge a NaN = False"
| "js_ge PosInf b = True"
| "js_ge a NegInf = True"
| "js_ge NegInf b = False"
| "js_ge a PosInf = False"
| "js_ge (Fin x) (Fin y) = (y \<le> x)"

text \<open>\<open>a <= b\<close> on numbers.\<close>

definition js_le :: "jsnum \<Rightarrow> jsnum \<Rightarrow> bool" where
  "js_le a b = js_ge b a"

text \<open>\<open>Math.min(a, b)\<close>: \<open>NaN\<close> as soon as one argument is.\<close>

fun Math_min :: "jsnum \<Rightarrow> jsnum \<Rightarrow> jsnum" where
  "Math_min NaN b = NaN"
| "Math_min a NaN = NaN"
| "Math_min NegInf b = NegInf"
| "Math_min a NegInf = NegInf"
| "Math_min PosInf b = b"
| "Math_min a PosInf = a"
| "Math_min (Fin x) (Fin y) = Fin (min x y)"

text \<open>
  A request's \<open>params\<close> is whatever \<open>JSON.parse\<close> built: \<open>unknown\<close> to the handlers.
  An object is the list of its members in insertion order; \<open>JSON.parse\<close> leaves one
  member per key.
\<close>

datatype json =
    JNull
  | JBool bool
  | JNum jsnum
  | JStr string
  | JArr "json list"
  | JObj "(string \<times> json) list"

datatype js_error = TypeError string | Error string

type_synonym byte = "8 word"

text \<open>
  What the platform provides and the repository only calls.  \<open>StringToNumber\<close> and
  \<open>NumberToString\<close> are the two ECMAScript conversions between primitive strings and
  numbers (neither ever throws); \<open>utf8ToString\<close> is \<open>Buffer.toString("utf8")\<close>;
  \<open>JSON_parse\<close> is \<open>JSON.parse\<close>, \<open>None\<close> where it throws; \<open>normalizePath\<close> is the
  function of that name of the note application's API; \<open>isWhiteSpace\<close> tells the code
  units that \<open>trim\<close>, \<open>trimEnd\<close> and the regular expression class \<open>\s\<close> take for white
  space (the Unicode white space and line terminators); \<open>toLowerCase\<close> is
  \<open>String.prototype.toLowerCase\<close>, the Unicode case folding of a whole string.
\<close>

record Host =
  StringToNumber :: "string \<Rightarrow> jsnum"
  NumberToString :: "jsnum \<Rightarrow> string"
  utf8ToString :: "byte list \<Rightarrow> string"
  JSON_parse :: "string \<Rightarrow> json option"
  normalizePath :: "string \<Rightarrow> string"
  isWhiteSpace :: "char \<Rightarrow> bool"
  toLowerCase :: "string \<Rightarrow> string"

subsection \<open>Strings\<close>

text \<open>
  A string is the list of its code units, a \<open>char\<close> standing for one of them.  The string
  methods the handlers call are written out; which code units are white space and how a
  string is folded to lower case are the platform's.
\<close>

text \<open>\<open>s.trimEnd()\<close> and \<open>s.trim()\<close>.\<close>

definition trimEnd :: "Host \<Rightarrow> string \<Rightarrow> string" where
  "trimEnd h s = rev (dropWhile (isWhiteSpace h) (rev s))"

definition trim :: "Host \<Rightarrow> string \<Rightarrow> string" where
  "trim h s = trimEnd h (dropWhile (isWhiteSpace h) s)"

definition startsWith :: "string \<Rightarrow> string \<Rightarrow> bool" where
  "startsWith s pre = prefix pre s"

definition endsWith :: "string \<Rightarrow> string \<Rightarrow> bool" where
  "endsWith s suf = suffix suf s"

text \<open>\<open>s.split(sep)\<close> for a one-character separator: never the empty array.\<close>

fun js_split :: "char \<Rightarrow> string \<Rightarrow> string list" where
  "js_split sep [] = [[]]"
| "js_split sep (c # cs) =
     (if c = sep then [] # js_split sep cs
      else (case js_split sep cs of [] \<Rightarrow> [[c]] | w # ws \<Rightarrow> (c # w) # ws))"

text \<open>\<open>parts.join(sep)\<close>.\<close>

fun js_join :: "string \<Rightarrow> string list \<Rightarrow> string" where
  "js_join sep [] = []"
| "js_join sep [w] = w"
| "js_join sep (w # ws) = w @ sep @ js_join sep ws"

text \<open>\<open>hay.indexOf(needle)\<close>: the first position, \<open>None\<close> for \<open>-1\<close>.\<close>

fun indexOf :: "string \<Rightarrow> string \<Rightarrow> nat option" where
  "indexOf [] needle = (if needle = [] then Some 0 else None)"
| "indexOf (c # cs) needle =
     (if prefix needle (c # cs) then Some 0 else map_option Suc (indexOf cs needle))"

text \<open>\<open>s.slice(start, end)\<close> for \<open>0 <= start\<close> and \<open>0 <= end\<close>.\<close>

definition js_slice :: "nat \<Rightarrow> nat \<Rightarrow> string \<Rightarrow> string" where
  "js_slice start fin s = take (fin - start) (drop start s)"

text \<open>\<open>s.replace(/\s+/g, " ")\<close>: every run of white space becomes one blank.\<close>

function collapse_ws :: "Host \<Rightarrow> string \<Rightarrow> string" where
  "collapse_ws h [] = []"
| "collapse_ws h (c # cs) =
     (if isWhiteSpace h c then CHR '' '' # collapse_ws h (dropWhile (isWhiteSpace h) cs)
      else c # collapse_ws h cs)"
  by pat_completeness auto
termination
  by (relation "measure (\<lambda>(h, s). length s)") (auto simp: length_dropWhile_le less_Suc_eq_le)

text \<open>The decimal rendering of a non-negative integer, as a template literal prints it.\<close>

fun decimal :: "nat \<Rightarrow> string" where
  "decimal n =
     (if n < 10 then [''0123456789'' ! n]
      else decimal (n div 10) @ [''0123456789'' ! (n mod 10)])"

declare decimal.simps [simp del]

subsection \<open>Reading untyped parameters\<close>

text \<open>
  Modelled from the spec: the guard \<open>isRecord\<close> of \<open>utils/guard\<close>, which is not among the
  sources.  The handlers "manually check field presence and type on an unknown-typed
  params object": the guard accepts a JSON object.  (An array has none of the members the
  handlers read, so it behaves as \<open>{}\<close> whether the guard accepts it or not.)
\<close>

definition isRecord :: "json option \<Rightarrow> bool" where
  "isRecord v = (case v of Some (JObj kvs) \<Rightarrow> True | _ \<Rightarrow> False)"

text \<open>\<open>const p = isRecord(params) ? params : {}\<close>, as the list of members of \<open>p\<close>.\<close>

definition asRecord :: "json option \<Rightarrow> (string \<times> json) list" where
  "asRecord params = (if isRecord params then (case params of Some (JObj kvs) \<Rightarrow> kvs | _ \<Rightarrow> []) else [])"

text \<open>\<open>p.key\<close>: \<open>None\<close> is \<open>undefined\<close>.\<close>

definition member :: "(string \<times> json) list \<Rightarrow> string \<Rightarrow> json option" where
  "member p k = map_of p k"

text \<open>\<open>v ?? d\<close>.\<close>

definition nullish :: "json option \<Rightarrow> json \<Rightarrow> json" where
  "nullish v d = (case v of None \<Rightarrow> d | Some JNull \<Rightarrow> d | Some x \<Rightarrow> x)"

text \<open>\<open>typeof v === "string" ? v : ""\<close>.\<close>

definition stringOr :: "json option \<Rightarrow> string" where
  "stringOr v = (case v of Some (JStr s) \<Rightarrow> s | _ \<Rightarrow> [])"

text \<open>
  \<open>Number(v)\<close> on a parsed JSON value.  Numbers, booleans and \<open>null\<close> convert directly and
  a string by \<open>StringToNumber\<close>.  An object or array is first converted to a primitive:
  a parsed object inherits \<open>valueOf\<close> (which returns the object itself) and \<open>toString\<close>
  (which returns \<open>[object Object]\<close>) unless it has a member of that name, and a member
  parsed from JSON is never callable; so an object with its own \<open>toString\<close> member has
  no usable conversion and the conversion throws a \<open>TypeError\<close>.  An array converts by
  joining the strings of its elements with commas, \<open>null\<close> elements as empty strings.
\<close>

fun convertible :: "json \<Rightarrow> bool" where
  "convertible (JObj kvs) = (''toString'' \<notin> fst ` set kvs)"
| "convertible (JArr xs) = (\<forall>x \<in> set xs. convertible x)"
| "convertible v = True"

fun ToString :: "Host \<Rightarrow> json \<Rightarrow> string" where
  "ToString h JNull = ''null''"
| "ToString h (JBool b) = (if b then ''true'' else ''false'')"
| "ToString h (JNum n) = NumberToString h n"
| "ToString h (JStr s) = s"
| "ToString h (JObj kvs) = ''[object Object]''"
| "ToString h (JArr xs) =
     js_join '','' (map (\<lambda>x. if x = JNull then [] else ToString h x) xs)"

definition Number_js :: "Host \<Rightarrow> json \<Rightarrow> js_error + jsnum" where
  "Number_js h v =
     (if \<not> convertible v then Inl (TypeError ''Cannot convert object to primitive value'')
      else Inr (case v of
                  JNull \<Rightarrow> Fin 0
                | JBool b \<Rightarrow> Fin (if b then 1 else 0)
                | JNum n \<Rightarrow> n
                | JStr s \<Rightarrow> StringToNumber h s
                | _ \<Rightarrow> StringToNumber h (ToString h v)))"

section \<open>The message codec\<close>

text \<open>
  A frame as the WebSocket transport hands it over: \<open>RawString\<close> for a text value,
  \<open>RawBuffer\<close> for a \<open>Buffer\<close>, \<open>RawArrayBuffer\<close> for an \<open>ArrayBuffer\<close>, \<open>RawFragments\<close> for
  an array of \<open>Buffer\<close>s, \<open>RawOther\<close> for anything else.
\<close>

datatype RawData =
    RawString string
  | RawBuffer "byte list"
  | RawArrayBuffer "byte list"
  | RawFragments "byte list list"
  | RawOther

fun rawToText :: "Host \<Rightarrow> RawData \<Rightarrow> string" where
  "rawToText h (RawString s) = s"
| "rawToText h (RawBuffer b) = utf8ToString h b"
| "rawToText h (RawArrayBuffer b) = utf8ToString h b"
| "rawToText h (RawFragments bs) = utf8ToString h (concat bs)"
| "rawToText h RawOther = []"

section \<open>The note store\<close>

text \<open>
  The note application is an external collaborator.  Its store is modelled by what the
  handlers use of it: an index from path to entry, the metadata cache, the resolved links,
  a clock for modification times, and a journal of the operations performed on it (so that
  what a handler reads and creates, and in which order, is part of its result).  Each
  handler runs to completion on the store it is given.
\<close>

record TFile =
  path :: string
  basename :: string
  extension :: string
  stat :: "int option"
  content :: string

datatype TAbstractFile = AFile TFile | AFolder string | AOther string

record CachedMetadata =
  tags :: "string list option"

datatype vault_op = CreateFolder string | Create string string | CachedRead string

record App =
  vault :: "(string \<times> TAbstractFile) list"
  metadataCache :: "(string \<times> CachedMetadata) list"
  resolvedLinks :: "(string \<times> (string \<times> nat) list) list option"
  clock :: int
  journal :: "vault_op list"

text \<open>
  The operations of the store.  \<open>getMarkdownFiles\<close> lists the files with the extension
  \<open>md\<close>; \<open>cachedRead\<close> returns the content of a file; \<open>createFolder\<close> and \<open>create\<close> fail
  when the path is taken and add the entry otherwise, \<open>create\<close> giving the new file the
  current time.
\<close>

definition getAbstractFileByPath :: "App \<Rightarrow> string \<Rightarrow> TAbstractFile option" where
  "getAbstractFileByPath app p = map_of (vault app) p"

definition getMarkdownFiles :: "App \<Rightarrow> TFile list" where
  "getMarkdownFiles app =
     List.map_filter
       (\<lambda>(p, e). case e of AFile f \<Rightarrow> (if extension f = ''md'' then Some f else None) | _ \<Rightarrow> None)
       (vault app)"

definition getFileCache :: "App \<Rightarrow> TFile \<Rightarrow> CachedMetadata option" where
  "getFileCache app f = map_of (metadataCache app) (path f)"

definition cachedRead :: "TFile \<Rightarrow> App \<Rightarrow> string \<times> App" where
  "cachedRead f app = (content f, app\<lparr>journal := journal app @ [CachedRead (path f)]\<rparr>)"

definition createFolder :: "string \<Rightarrow> App \<Rightarrow> (js_error + unit) \<times> App" where
  "createFolder p app =
     (case map_of (vault app) p of
        Some e \<Rightarrow> (Inl (Error ''Folder already exists.''), app)
      | None \<Rightarrow>
          (Inr (), app\<lparr>vault := vault app @ [(p, AFolder p)],
                        journal := journal app @ [CreateFolder p]\<rparr>))"

definition file_name :: "string \<Rightarrow> string" where
  "file_name p = last (js_split CHR ''/'' p)"

definition extension_of :: "string \<Rightarrow> string" where
  "extension_of p =
     (let parts = js_split CHR ''.'' (file_name p)
      in if length parts < 2 then [] else last parts)"

definition basename_of :: "string \<Rightarrow> string" where
  "basename_of p =
     (let parts = js_split CHR ''.'' (file_name p)
      in if length parts < 2 then file_name p else js_join ''.'' (butlast parts))"

definition create :: "string \<Rightarrow> string \<Rightarrow> App \<Rightarrow> (js_error + TFile) \<times> App" where
  "create p data app =
     (case map_of (vault app) p of
        Some e \<Rightarrow> (Inl (Error ''File already exists.''), app)
      | None \<Rightarrow>
          (let f = \<lparr>path = p, basename = basename_of p, extension = extension_of p,
                    stat = Some (clock app), content = data\<rparr>
           in (Inr f, app\<lparr>vault := vault app @ [(p, AFile f)],
                           journal := journal app @ [Create p data]\<rparr>)))"

section \<open>The method handlers\<close>

record GraphNode =
  node_id :: string
  node_path :: string
  node_title :: string
  node_mtime :: int
  node_tags :: "string list"

record GraphEdge =
  source :: string
  target :: string
  count :: nat

record GraphSnapshot =
  version :: nat
  nodes :: "GraphNode list"
  edges :: "GraphEdge list"

record NotePreview =
  preview_path :: string
  preview_title :: string
  preview_mtime :: int
  preview_tags :: "string list"
  excerpt :: string

record SearchResult =
  result_path :: string
  result_title :: string
  snippet :: string

record SearchResponse =
  query :: string
  results :: "SearchResult list"

record CreateNoteResponse =
  created_path :: string
  created_title :: string
  created_mtime :: int
  created :: bool

text \<open>What a handler returns; \<open>Unchanged v\<close> is \<open>{version: v, changed: false}\<close>.\<close>

datatype rpc_result =
    Unchanged nat
  | Snapshot GraphSnapshot
  | Preview NotePreview
  | Found SearchResponse
  | Created CreateNoteResponse

text \<open>A handler gets the parameters and the context (the store and the change version).\<close>

type_synonym handler = "Host \<Rightarrow> json option \<Rightarrow> App \<Rightarrow> nat \<Rightarrow> (js_error + rpc_result) \<times> App"

text \<open>\<open>t.tag.startsWith("#") ? t.tag.slice(1) : t.tag\<close>.\<close>

definition tag_name :: "string \<Rightarrow> string" where
  "tag_name t = (if startsWith t ''#'' then drop 1 t else t)"

text \<open>\<open>Set.add\<close> on a set kept in insertion order.\<close>

definition set_add :: "'a list \<Rightarrow> 'a \<Rightarrow> 'a list" where
  "set_add s x = (if x \<in> set s then s else s @ [x])"

text \<open>The tag loop shared by the snapshot and the preview, and \<open>[...tags]\<close> after it.\<close>

definition collectTags :: "CachedMetadata option \<Rightarrow> string list" where
  "collectTags cache =
     (case cache of
        None \<Rightarrow> []
      | Some c \<Rightarrow>
          (case tags c of
             None \<Rightarrow> []
           | Some ts \<Rightarrow> foldl (\<lambda>s t. if t \<noteq> [] then set_add s (tag_name t) else s) [] ts))"

definition mtime_of :: "TFile \<Rightarrow> int" where
  "mtime_of f = (case stat f of None \<Rightarrow> 0 | Some m \<Rightarrow> m)"

definition graphNode :: "App \<Rightarrow> TFile \<Rightarrow> GraphNode" where
  "graphNode app f =
     \<lparr>node_id = path f, node_path = path f, node_title = basename f,
      node_mtime = mtime_of f, node_tags = collectTags (getFileCache app f)\<rparr>"

definition graphEdges :: "App \<Rightarrow> GraphEdge list" where
  "graphEdges app =
     (case resolvedLinks app of
        None \<Rightarrow> []
      | Some resolved \<Rightarrow>
          concat (map (\<lambda>(s, targets). map (\<lambda>(t, c). \<lparr>source = s, target = t, count = c\<rparr>) targets)
                      resolved))"

definition rpcGraphGetSnapshot :: handler where
  "rpcGraphGetSnapshot h params app graphVersion =
     (let p = asRecord params
      in case Number_js h (nullish (member p ''sinceVersion'') (JNum (Fin (- 1)))) of
           Inl e \<Rightarrow> (Inl e, app)
         | Inr sinceVersion \<Rightarrow>
             if js_ge sinceVersion (Fin 0) \<and> js_ge sinceVersion (Fin (of_nat graphVersion))
             then (Inr (Unchanged graphVersion), app)
             else (Inr (Snapshot \<lparr>version = graphVersion,
                                  nodes = map (graphNode app) (getMarkdownFiles app),
                                  edges = graphEdges app\<rparr>), app))"

definition rpcNoteGetPreview :: handler where
  "rpcNoteGetPreview h params app graphVersion =
     (let p = asRecord params;
          pth = stringOr (member p ''path'')
      in if pth = [] then (Inl (Error ''Missing params.path''), app)
         else (case getAbstractFileByPath app pth of
                 Some (AFile file) \<Rightarrow>
                   (let ts = collectTags (getFileCache app file);
                        (text, app') = cachedRead file app;
                        ex = js_join [CHR 0x0A] (take 30 (js_split (CHR 0x0A) text))
                    in (Inr (Preview \<lparr>preview_path = path file, preview_title = basename file,
                                      preview_mtime = mtime_of file, preview_tags = ts,
                                      excerpt = ex\<rparr>), app'))
               | _ \<Rightarrow> (Inl (Error (''Not a file: '' @ pth)), app)))"

text \<open>
  The scan of \<open>rpcSearchQuery\<close>: the \<open>for\<close> loop over the files with its \<open>break\<close> and
  \<open>continue\<close>, the results collected so far and the store (whose journal records each
  \<open>cachedRead\<close>) passed along.
\<close>

definition searchHit :: "Host \<Rightarrow> string \<Rightarrow> TFile \<Rightarrow> string \<Rightarrow> SearchResult option" where
  "searchHit h q f text =
     (case indexOf (toLowerCase h text) (toLowerCase h q) of
        None \<Rightarrow> None
      | Some idx \<Rightarrow>
          (let start = idx - 80;
               fin = min (length text) (idx + length q + 80)
           in Some \<lparr>result_path = path f, result_title = basename f,
                     snippet = collapse_ws h (js_slice start fin text)\<rparr>))"

fun searchLoop :: "Host \<Rightarrow> jsnum \<Rightarrow> string \<Rightarrow> TFile list \<Rightarrow> SearchResult list \<Rightarrow> App \<Rightarrow> SearchResult list \<times> App" where
  "searchLoop h limit q [] res app = (res, app)"
| "searchLoop h limit q (f # fs) res app =
     (if js_ge (Fin (of_nat (length res))) limit then (res, app)
      else (let (text, app') = cachedRead f app
            in case searchHit h q f text of
                 None \<Rightarrow> searchLoop h limit q fs res app'
               | Some r \<Rightarrow> searchLoop h limit q fs (res @ [r]) app'))"

definition rpcSearchQuery :: handler where
  "rpcSearchQuery h params app graphVersion =
     (let p = asRecord params;
          q = trim h (stringOr (member p ''q''))
      in if q = [] then (Inl (Error ''Missing params.q''), app)
         else (case Number_js h (nullish (member p ''limit'') (JNum (Fin 50))) of
                 Inl e \<Rightarrow> (Inl e, app)
               | Inr n \<Rightarrow>
                   (let limit = Math_min n (Fin 200);
                        (res, app') = searchLoop h limit q (getMarkdownFiles app) [] app
                    in (Inr (Found \<lparr>query = q, results = res\<rparr>), app'))))"

text \<open>\<open>current ? `${current}/${segment}` : segment\<close>.\<close>

definition join_path :: "string \<Rightarrow> string \<Rightarrow> string" where
  "join_path current segment = (if current \<noteq> [] then current @ ''/'' @ segment else segment)"

text \<open>The loop of \<open>ensureFolderPath\<close> over the path segments, \<open>current\<close> being the path so far.\<close>

fun ensureLoop :: "string \<Rightarrow> string list \<Rightarrow> App \<Rightarrow> (js_error + unit) \<times> App" where
  "ensureLoop current [] app = (Inr (), app)"
| "ensureLoop current (segment # segments) app =
     (let cur = join_path current segment
      in case getAbstractFileByPath app cur of
           None \<Rightarrow>
             (case createFolder cur app of
                (Inl e, app') \<Rightarrow> (Inl e, app')
              | (Inr u, app') \<Rightarrow> ensureLoop cur segments app')
         | Some (AFolder d) \<Rightarrow> ensureLoop cur segments app
         | Some other \<Rightarrow> (Inl (Error (''Path segment is not a folder: '' @ cur)), app))"

definition ensureFolderPath :: "App \<Rightarrow> string \<Rightarrow> (js_error + unit) \<times> App" where
  "ensureFolderPath app folderPath =
     ensureLoop [] (filter (\<lambda>s. s \<noteq> []) (js_split CHR ''/'' folderPath)) app"

text \<open>The document \<open>rpcNoteCreate\<close> writes: \<open>`# ${heading}\n\n${body.trimEnd()}\n`\<close>.\<close>

definition noteContent :: "Host \<Rightarrow> string \<Rightarrow> string \<Rightarrow> string" where
  "noteContent h heading body = ''# '' @ heading @ [CHR 0x0A, CHR 0x0A] @ trimEnd h body @ [CHR 0x0A]"

definition rpcNoteCreate :: handler where
  "rpcNoteCreate h params app graphVersion =
     (let p = asRecord params;
          rawPath = trim h (stringOr (member p ''path''));
          heading = trim h (stringOr (member p ''heading''));
          body = stringOr (member p ''body'')
      in if rawPath = [] then (Inl (Error ''Missing params.path''), app)
         else if heading = [] then (Inl (Error ''Missing params.heading''), app)
         else (let pth = normalizePath h rawPath
               in if \<not> endsWith (toLowerCase h pth) ''.md''
                  then (Inl (Error ''params.path must end with .md''), app)
                  else (case getAbstractFileByPath app pth of
                          Some (AFile f) \<Rightarrow> (Inl (Error (''File already exists: '' @ pth)), app)
                        | Some (AOther x) \<Rightarrow>
                            (Inl (Error (''Path already exists and is not a markdown file: '' @ pth)), app)
                        | _ \<Rightarrow>
                            (let folderPath = js_join ''/'' (butlast (js_split CHR ''/'' pth))
                             in case (if folderPath \<noteq> [] then ensureFolderPath app folderPath
                                      else (Inr (), app)) of
                                  (Inl e, app1) \<Rightarrow> (Inl e, app1)
                                | (Inr u, app1) \<Rightarrow>
                                    (case create pth (noteContent h heading body) app1 of
                                       (Inl e, app2) \<Rightarrow> (Inl e, app2)
                                     | (Inr file, app2) \<Rightarrow>
                                         (Inr (Created \<lparr>created_path = path file,
                                                         created_title = basename file,
                                                         created_mtime = mtime_of file,
                                                         created = True\<rparr>), app2))))))"

section \<open>The method registry\<close>

type_synonym registry = "string \<Rightarrow> handler option"

text \<open>\<open>addMethod\<close> of the RPC endpoint: the last registration of a name wins.\<close>

definition addMethod :: "string \<Rightarrow> handler \<Rightarrow> registry \<Rightarrow> registry" where
  "addMethod name m reg = reg(name \<mapsto> m)"

definition registerRpcMethods :: "registry \<Rightarrow> registry" where
  "registerRpcMethods server =
     addMethod ''createNote'' (\<lambda>h params app v. rpcNoteCreate h params app v)
       (addMethod ''note.create'' (\<lambda>h params app v. rpcNoteCreate h params app v)
         (addMethod ''search.query'' (\<lambda>h params app v. rpcSearchQuery h params app v)
           (addMethod ''note.getPreview'' (\<lambda>h params app v. rpcNoteGetPreview h params app v)
             (addMethod ''graph.getSnapshot'' (\<lambda>h params app v. rpcGraphGetSnapshot h params app v)
                server))))"

text \<open>
  Modelled from the spec: \<open>dispatch(name, params, context)\<close> of the endpoint library, which
  is not among the sources.  It "looks up the handler" and calls it; "if absent", the
  request is answered by a "method not found" error.
\<close>

definition dispatch :: "registry \<Rightarrow> string \<Rightarrow> handler" where
  "dispatch reg name h params app v =
     (case reg name of
        None \<Rightarrow> (Inl (Error ''Method not found''), app)
      | Some m \<Rightarrow> m h params app v)"

section \<open>Sessions, the server and the plugin\<close>

text \<open>
  A socket is known by its identity.  Of a socket the server uses its \<open>readyState\<close> and
  \<open>send\<close>; what has been sent on it is kept in order.  A message on the wire is the object
  handed to \<open>JSON.stringify\<close>.
\<close>

type_synonym ws = nat

datatype readyState = CONNECTING | OPEN | CLOSING | CLOSED

datatype wire =
    Request json string json
  | Notification string json
  | ResponseSuccess json rpc_result
  | ResponseError json string

record Socket =
  readyState :: readyState
  sent :: "wire list"

text \<open>
  The per-connection endpoint (\<open>JSONRPCServerAndClient\<close>): the ids of the outbound requests
  still awaiting their response, and the log of the outbound requests settled so far, each
  with its outcome (\<open>Inl\<close> the message of the error it was rejected with, \<open>Inr\<close> the result).
\<close>

record Session =
  pending :: "nat list"
  settled :: "(nat \<times> (string + json)) list"

text \<open>
  \<open>WsRpcServer\<close>: the listening socket \<open>wss\<close> (\<open>None\<close> is \<open>undefined\<close>) and the keys of the
  \<open>clients\<close> map in insertion order; the endpoint stored under a socket is \<open>sessions\<close> of
  that socket, which the socket's event handlers also hold.
\<close>

record WsRpcServer =
  wss :: "nat option"
  clients :: "ws list"

text \<open>
  The plugin (\<open>graphVersion\<close>, \<open>rpcServer\<close>) and what surrounds it: the store, the sockets,
  the endpoints, the number of listening sockets opened so far and the number of notices
  shown to the user.
\<close>

record World =
  graphVersion :: nat
  rpcServer :: "WsRpcServer option"
  store :: App
  sockets :: "ws \<Rightarrow> Socket"
  sessions :: "ws \<Rightarrow> Session"
  listeners :: nat
  notices :: nat

definition version_params :: "nat \<Rightarrow> json" where
  "version_params v = JObj [(''version'', JNum (Fin (of_nat v)))]"

text \<open>
  The send callback given to the endpoint in \<open>createServerAndClient\<close>: the promise is
  rejected (\<open>False\<close>) when the socket is not open, else the message is sent.
\<close>

definition socket_send :: "wire \<Rightarrow> ws \<Rightarrow> World \<Rightarrow> bool \<times> World" where
  "socket_send msg s w =
     (if readyState (sockets w s) \<noteq> OPEN then (False, w)
      else (True, w\<lparr>sockets := (sockets w)(s := (sockets w s)\<lparr>sent := sent (sockets w s) @ [msg]\<rparr>)\<rparr>))"

text \<open>
  Modelled from the spec: \<open>notifyRemote(method, params)\<close> of the endpoint library, which is
  not among the sources: "serialize and send a Notification; no pending entry created".
  A failed send is ignored.
\<close>

definition notify :: "string \<Rightarrow> json \<Rightarrow> ws \<Rightarrow> World \<Rightarrow> World" where
  "notify m params s w = snd (socket_send (Notification m params) s w)"

text \<open>
  Modelled from the spec: \<open>callRemote(method, params)\<close> of the endpoint library: "allocate
  a fresh id unique among this session's currently pending outbound requests, store a
  pending entry, serialize and send a Request".
\<close>

definition fresh_id :: "nat list \<Rightarrow> nat" where
  "fresh_id ids = Suc (foldr max ids 0)"

definition callRemote :: "string \<Rightarrow> json \<Rightarrow> ws \<Rightarrow> World \<Rightarrow> World" where
  "callRemote m params s w =
     (let ses = sessions w s;
          i = fresh_id (pending ses);
          w1 = w\<lparr>sessions := (sessions w)(s := ses\<lparr>pending := pending ses @ [i]\<rparr>)\<rparr>
      in snd (socket_send (Request (JNum (Fin (of_nat i))) m params) s w1))"

text \<open>
  Modelled from the spec: \<open>closeAndDrain(reason)\<close>, the library's
  \<open>rejectAllPendingRequests\<close>: "fail every currently-pending outbound entry with an error
  embedding reason; clear the pending table".
\<close>

definition rejectAllPendingRequests :: "string \<Rightarrow> ws \<Rightarrow> World \<Rightarrow> World" where
  "rejectAllPendingRequests msg s w =
     (let ses = sessions w s
      in w\<lparr>sessions := (sessions w)(s := ses\<lparr>settled := settled ses @ map (\<lambda>i. (i, Inl msg)) (pending ses),
                                                pending := []\<rparr>)\<rparr>)"

text \<open>The id of a response as an outbound request id.\<close>

definition outbound_id :: "json \<Rightarrow> nat option" where
  "outbound_id v =
     (case v of
        JNum (Fin r) \<Rightarrow> (if 0 \<le> r \<and> of_int \<lfloor>r\<rfloor> = r then Some (nat \<lfloor>r\<rfloor>) else None)
      | _ \<Rightarrow> None)"

definition scalar_id :: "json \<Rightarrow> bool" where
  "scalar_id v = (case v of JNum n \<Rightarrow> True | JStr t \<Rightarrow> True | _ \<Rightarrow> False)"

definition error_message :: "js_error \<Rightarrow> string" where
  "error_message e = (case e of TypeError m \<Rightarrow> m | Error m \<Rightarrow> m)"

text \<open>
  Modelled from the spec: \<open>handleIncoming\<close>, the library's \<open>receiveAndSend\<close>.  "A message
  missing jsonrpc 2.0, missing method (for requests and notifications), or with a
  non-scalar id, is treated as invalid and dropped without reply."  A message with a
  method and an id is a request: its handler runs, and a success or error response with
  the same id is sent.  With a method and no id it is a notification: the handler runs and
  nothing is sent.  With an id and a result or an error it is a response: the pending
  entry with that id is settled and removed, and a response with no pending entry is
  discarded.
\<close>

definition settle :: "nat \<Rightarrow> (string + json) \<Rightarrow> ws \<Rightarrow> World \<Rightarrow> World" where
  "settle i outcome s w =
     (let ses = sessions w s
      in if i \<in> set (pending ses)
         then w\<lparr>sessions := (sessions w)(s := ses\<lparr>settled := settled ses @ [(i, outcome)],
                                                  pending := removeAll i (pending ses)\<rparr>)\<rparr>
         else w)"

definition receiveAndSend :: "Host \<Rightarrow> json \<Rightarrow> ws \<Rightarrow> World \<Rightarrow> World" where
  "receiveAndSend h payload s w =
     (case payload of
        JObj kvs \<Rightarrow>
          (if map_of kvs ''jsonrpc'' \<noteq> Some (JStr ''2.0'') then w
           else (case map_of kvs ''method'' of
                   Some (JStr m) \<Rightarrow>
                     (case map_of kvs ''id'' of
                        None \<Rightarrow>
                          (let (r, app') = dispatch (registerRpcMethods Map.empty) m h
                                             (map_of kvs ''params'') (store w) (graphVersion w)
                           in w\<lparr>store := app'\<rparr>)
                      | Some i \<Rightarrow>
                          (if \<not> scalar_id i then w
                           else (let (r, app') = dispatch (registerRpcMethods Map.empty) m h
                                                   (map_of kvs ''params'') (store w) (graphVersion w);
                                     w1 = w\<lparr>store := app'\<rparr>
                                 in case r of
                                      Inr res \<Rightarrow> snd (socket_send (ResponseSuccess i res) s w1)
                                    | Inl e \<Rightarrow> snd (socket_send (ResponseError i (error_message e)) s w1))))
                 | Some other \<Rightarrow> w
                 | None \<Rightarrow>
                     (case map_of kvs ''id'' of
                        None \<Rightarrow> w
                      | Some i \<Rightarrow>
                          (case outbound_id i of
                             None \<Rightarrow> w
                           | Some n \<Rightarrow>
                               (case map_of kvs ''result'' of
                                  Some res \<Rightarrow> settle n (Inr res) s w
                                | None \<Rightarrow>
                                    (case map_of kvs ''error'' of
                                       Some err \<Rightarrow> settle n (Inl (stringOr (member (asRecord (Some err)) ''message''))) s w
                                     | None \<Rightarrow> w))))))
      | _ \<Rightarrow> w)"

subsection \<open>\<open>WsRpcServer\<close>\<close>

text \<open>\<open>start()\<close>: a new listening socket unless one is there.\<close>

definition start :: "World \<Rightarrow> World" where
  "start w =
     (case rpcServer w of
        None \<Rightarrow> w
      | Some srv \<Rightarrow>
          (if wss srv \<noteq> None then w
           else w\<lparr>rpcServer := Some (srv\<lparr>wss := Some (listeners w)\<rparr>),
                   listeners := Suc (listeners w)\<rparr>))"

text \<open>
  The \<open>connection\<close> handler: a new endpoint for the socket, entered in \<open>clients\<close>
  (\<open>Map.set\<close>: a key keeps its place), the notice, then the \<open>hello\<close> notification.
\<close>

definition on_connection :: "ws \<Rightarrow> World \<Rightarrow> World" where
  "on_connection s w =
     (case rpcServer w of
        None \<Rightarrow> w
      | Some srv \<Rightarrow>
          (let w1 = w\<lparr>sessions := (sessions w)(s := \<lparr>pending = [], settled = []\<rparr>)\<rparr>;
               w2 = w1\<lparr>rpcServer := Some (srv\<lparr>clients := set_add (clients srv) s\<rparr>)\<rparr>;
               w3 = w2\<lparr>notices := Suc (notices w2)\<rparr>
           in notify ''hello'' (version_params (graphVersion w3)) s w3))"

text \<open>The text of the error the \<open>close\<close> handler rejects with.\<close>

definition close_message :: "nat \<Rightarrow> string \<Rightarrow> string" where
  "close_message code reasonText =
     ''Connection is closed ('' @ decimal code
       @ (if reasonText \<noteq> [] then '': '' @ reasonText else []) @ '').''"

text \<open>
  The \<open>close\<close> handler of a socket, which the transport calls with the close code and the
  reason (a \<open>Buffer\<close>) once the socket is closed.
\<close>

definition on_close :: "Host \<Rightarrow> ws \<Rightarrow> nat \<Rightarrow> byte list \<Rightarrow> World \<Rightarrow> World" where
  "on_close h s code reason w =
     (let w0 = w\<lparr>sockets := (sockets w)(s := (sockets w s)\<lparr>readyState := CLOSED\<rparr>)\<rparr>;
          reasonText = utf8ToString h reason;
          w1 = rejectAllPendingRequests (close_message code reasonText) s w0
      in w1\<lparr>rpcServer := map_option (\<lambda>srv. srv\<lparr>clients := removeAll s (clients srv)\<rparr>) (rpcServer w1)\<rparr>)"

text \<open>The \<open>message\<close> handler of a socket.\<close>

definition on_message :: "Host \<Rightarrow> ws \<Rightarrow> RawData \<Rightarrow> World \<Rightarrow> World" where
  "on_message h s raw w =
     (let text = rawToText h raw
      in if text = [] then w
         else (case JSON_parse h text of
                 None \<Rightarrow> w
               | Some payload \<Rightarrow> receiveAndSend h payload s w))"

text \<open>\<open>ws.close()\<close>: an open socket starts closing.\<close>

definition ws_close :: "ws \<Rightarrow> World \<Rightarrow> World" where
  "ws_close s w =
     (if readyState (sockets w s) = CLOSED then w
      else w\<lparr>sockets := (sockets w)(s := (sockets w s)\<lparr>readyState := CLOSING\<rparr>)\<rparr>)"

definition stop :: "World \<Rightarrow> World" where
  "stop w =
     (case rpcServer w of
        None \<Rightarrow> w
      | Some srv \<Rightarrow>
          (let w1 = foldl (\<lambda>w' s. ws_close s (rejectAllPendingRequests ''Connection closed.'' s w'))
                          w (clients srv)
           in w1\<lparr>rpcServer := Some (srv\<lparr>clients := [], wss := None\<rparr>)\<rparr>))"

definition notifyAll :: "string \<Rightarrow> json \<Rightarrow> World \<Rightarrow> World" where
  "notifyAll m params w =
     (case rpcServer w of
        None \<Rightarrow> w
      | Some srv \<Rightarrow> foldl (\<lambda>w' s. notify m params s w') w (clients srv))"

subsection \<open>The plugin\<close>

text \<open>\<open>bumpGraphVersion\<close>, the handler of the store's modify, create, delete and rename events.\<close>

definition bumpGraphVersion :: "World \<Rightarrow> World" where
  "bumpGraphVersion w =
     (let w1 = w\<lparr>graphVersion := graphVersion w + 1\<rparr>
      in notifyAll ''graph.changed'' (version_params (graphVersion w1)) w1)"

datatype vault_event = Modify | CreateEvent | Delete | Rename

definition on_vault_event :: "vault_event \<Rightarrow> World \<Rightarrow> World" where
  "on_vault_event ev w = bumpGraphVersion w"

section \<open>Notions the properties are stated with\<close>

text \<open>A parsed frame carries the protocol marker when it is an object whose \<open>jsonrpc\<close> is \<open>"2.0"\<close>.\<close>

definition has_marker :: "json \<Rightarrow> bool" where
  "has_marker payload =
     (case payload of JObj kvs \<Rightarrow> map_of kvs ''jsonrpc'' = Some (JStr ''2.0'') | _ \<Rightarrow> False)"

text \<open>The sockets entered in the server's \<open>clients\<close> map.\<close>

definition clients_of :: "World \<Rightarrow> ws list" where
  "clients_of w = (case rpcServer w of None \<Rightarrow> [] | Some srv \<Rightarrow> clients srv)"

text \<open>A session is live when its socket is entered in \<open>clients\<close> and is open.\<close>

definition live :: "World \<Rightarrow> ws \<Rightarrow> bool" where
  "live w s = (s \<in> set (clients_of w) \<and> readyState (sockets w s) = OPEN)"

text \<open>The entries of the settlement log about one request id.\<close>

definition settlements :: "nat \<Rightarrow> (nat \<times> (string + json)) list \<Rightarrow> (string + json) list" where
  "settlements i entries = map snd (filter (\<lambda>e. fst e = i) entries)"

text \<open>The \<open>path\<close> parameter as \<open>rpcNoteGetPreview\<close> reads it: empty when missing or not a string.\<close>

definition path_param :: "json option \<Rightarrow> string" where
  "path_param params = stringOr (member (asRecord params) ''path'')"

definition is_file :: "TAbstractFile \<Rightarrow> bool" where
  "is_file x = (case x of AFile f \<Rightarrow> True | _ \<Rightarrow> False)"

text \<open>
  The value \<open>rpcGraphGetSnapshot\<close> converts to a number: \<open>p.sinceVersion ?? -1\<close>.
\<close>

definition since_param :: "json option \<Rightarrow> json" where
  "since_param params = nullish (member (asRecord params) ''sinceVersion'') (JNum (Fin (- 1)))"

text \<open>
  A \<open>sinceVersion\<close> is supplied (present and not \<open>null\<close>) and its number \<open>V\<close> satisfies
  \<open>V >= 0\<close> and \<open>V >= v\<close>, the current change version.
\<close>

definition supplied_current :: "Host \<Rightarrow> json option \<Rightarrow> nat \<Rightarrow> bool" where
  "supplied_current h params v =
     (case member (asRecord params) ''sinceVersion'' of
        None \<Rightarrow> False
      | Some JNull \<Rightarrow> False
      | Some x \<Rightarrow>
          (case Number_js h x of
             Inl e \<Rightarrow> False
           | Inr n \<Rightarrow> js_ge n (Fin 0) \<and> js_ge n (Fin (of_nat v))))"

text \<open>The parameters of \<open>rpcSearchQuery\<close> as it reads them: \<open>p.limit ?? 50\<close> and the trimmed query.\<close>

definition limit_param :: "json option \<Rightarrow> json" where
  "limit_param params = nullish (member (asRecord params) ''limit'') (JNum (Fin 50))"

definition query_param :: "Host \<Rightarrow> json option \<Rightarrow> string" where
  "query_param h params = trim h (stringOr (member (asRecord params) ''q''))"

text \<open>The result a file contributes to a search, and the results of a list of files.\<close>

definition hit :: "Host \<Rightarrow> string \<Rightarrow> TFile \<Rightarrow> SearchResult option" where
  "hit h q f = searchHit h q f (content f)"

definition hits_in :: "Host \<Rightarrow> string \<Rightarrow> TFile list \<Rightarrow> SearchResult list" where
  "hits_in h q fs = List.map_filter (hit h q) fs"

text \<open>
  The number of results a numeric limit allows: the loop stops once the number of results
  is at least the limit, so a limit that is not a whole number is rounded up and a negative
  one allows none.
\<close>

definition result_cap :: "jsnum \<Rightarrow> nat" where
  "result_cap limit = (case limit of Fin x \<Rightarrow> nat \<lceil>x\<rceil> | _ \<Rightarrow> 0)"

text \<open>The number of results in a handler's outcome (0 when it is not a search response).\<close>

definition result_count :: "js_error + rpc_result \<Rightarrow> nat" where
  "result_count out = (case out of Inr (Found r) \<Rightarrow> length (results r) | _ \<Rightarrow> 0)"

text \<open>
  The parameters of \<open>rpcNoteCreate\<close> as it reads them: the normalized path, the trimmed
  heading and the body; and the checks it makes on them before it looks at the store.
\<close>

definition create_path :: "Host \<Rightarrow> json option \<Rightarrow> string" where
  "create_path h params = normalizePath h (trim h (stringOr (member (asRecord params) ''path'')))"

definition heading_param :: "Host \<Rightarrow> json option \<Rightarrow> string" where
  "heading_param h params = trim h (stringOr (member (asRecord params) ''heading''))"

definition body_param :: "json option \<Rightarrow> string" where
  "body_param params = stringOr (member (asRecord params) ''body'')"

definition valid_create :: "Host \<Rightarrow> json option \<Rightarrow> bool" where
  "valid_create h params =
     (trim h (stringOr (member (asRecord params) ''path'')) \<noteq> []
      \<and> heading_param h params \<noteq> []
      \<and> endsWith (toLowerCase h (create_path h params)) ''.md'')"

text \<open>
  The intermediate folders of a path, outermost first: the paths \<open>ensureFolderPath\<close> visits
  for the folder part of the path.
\<close>

fun path_prefixes :: "string \<Rightarrow> string list \<Rightarrow> string list" where
  "path_prefixes current [] = []"
| "path_prefixes current (segment # segments) =
     join_path current segment # path_prefixes (join_path current segment) segments"

definition folder_of :: "string \<Rightarrow> string" where
  "folder_of pth = js_join ''/'' (butlast (js_split CHR ''/'' pth))"

definition intermediate_folders :: "string \<Rightarrow> string list" where
  "intermediate_folders pth =
     path_prefixes [] (filter (\<lambda>s. s \<noteq> []) (js_split CHR ''/'' (folder_of pth)))"

definition is_folder :: "TAbstractFile \<Rightarrow> bool" where
  "is_folder x = (case x of AFolder d \<Rightarrow> True | _ \<Rightarrow> False)"

text \<open>An intermediate path that is missing, and one that exists but is not a folder.\<close>

definition missing :: "App \<Rightarrow> string \<Rightarrow> bool" where
  "missing a d = (getAbstractFileByPath a d = None)"

definition blocked :: "App \<Rightarrow> string \<Rightarrow> bool" where
  "blocked a d = (case getAbstractFileByPath a d of None \<Rightarrow> False | Some x \<Rightarrow> \<not> is_folder x)"

text \<open>The store with the folders \<open>cs\<close> created, in that order.\<close>

definition with_folders :: "App \<Rightarrow> string list \<Rightarrow> App" where
  "with_folders a cs =
     a\<lparr>vault := vault a @ map (\<lambda>d. (d, AFolder d)) cs,
       journal := journal a @ map CreateFolder cs\<rparr>"

section \<open>A sample platform and sample states\<close>

text \<open>
  Concrete values on which the theorems below are instantiated.  The sample platform
  converts the strings used below (none of them numeric) to \<open>NaN\<close>, decodes the bytes 104
  and 105 as \<open>h\<close> and \<open>i\<close>, parses the texts \<open>{}\<close> and \<open>7\<close> and rejects every other text,
  leaves a path as it is, takes the space, the controls U+0009 to U+000D and the no-break
  space U+00A0 for white space, and folds the letters \<open>A\<close> to \<open>Z\<close>: on the strings used
  below it does what the platform does.
\<close>

definition sample_parse :: "string \<Rightarrow> json option" where
  "sample_parse t =
     (if t = ''{}'' then Some (JObj [])
      else if t = ''7'' then Some (JNum (Fin 7))
      else None)"

definition sample_space :: "char \<Rightarrow> bool" where
  "sample_space c =
     (c \<in> set [CHR '' '', CHR 0x09, CHR 0x0A, CHR 0x0B, CHR 0x0C, CHR 0x0D, CHR 0xA0])"

definition sample_lower :: "char \<Rightarrow> char" where
  "sample_lower c =
     (case map_of (zip ''ABCDEFGHIJKLMNOPQRSTUVWXYZ'' ''abcdefghijklmnopqrstuvwxyz'') c of
        Some l \<Rightarrow> l
      | None \<Rightarrow> c)"

definition sample_host :: Host where
  "sample_host =
     \<lparr>StringToNumber = (\<lambda>t. NaN), NumberToString = (\<lambda>n. []),
      utf8ToString = map (\<lambda>b. if b = 104 then CHR ''h'' else if b = 105 then CHR ''i'' else CHR ''?''),
      JSON_parse = sample_parse,
      normalizePath = (\<lambda>t. t),
      isWhiteSpace = sample_space,
      toLowerCase = map sample_lower\<rparr>"

definition empty_app :: App where
  "empty_app = \<lparr>vault = [], metadataCache = [], resolvedLinks = None, clock = 0, journal = []\<rparr>"

definition sample_world :: World where
  "sample_world =
     \<lparr>graphVersion = 3,
      rpcServer = Some \<lparr>wss = Some 0, clients = [1, 2]\<rparr>,
      store = empty_app,
      sockets = (\<lambda>s. \<lparr>readyState = (if s = 1 \<or> s = 3 then OPEN else CLOSING), sent = []\<rparr>),
      sessions = (\<lambda>s. \<lparr>pending = (if s = 1 then [4, 9] else []), settled = []\<rparr>),
      listeners = 1,
      notices = 2\<rparr>"

definition sample_note :: TFile where
  "sample_note =
     \<lparr>path = ''n.md'', basename = ''n'', extension = ''md'', stat = Some 5,
      content = [CHR ''x'', CHR 0x0A, CHR ''y'']\<rparr>"

definition sample_app :: App where
  "sample_app =
     \<lparr>vault = [(''n.md'', AFile sample_note), (''dir'', AFolder ''dir'')],
      metadataCache = [(''n.md'', \<lparr>tags = Some [''#t'', ''t'', ''u'']\<rparr>)],
      resolvedLinks = Some [(''n.md'', [(''m.md'', 2)])],
      clock = 9,
      journal = []\<rparr>"

text \<open>A store in which the path \<open>d.md\<close> names a folder.\<close>

definition occupied_app :: App where
  "occupied_app =
     \<lparr>vault = [(''d.md'', AFolder ''d.md'')],
      metadataCache = [], resolvedLinks = None, clock = 0, journal = []\<rparr>"

text \<open>A store of \<open>n\<close> notes, each containing the word \<open>Foo\<close> after a space and a newline.\<close>

definition foo_note :: "nat \<Rightarrow> TFile" where
  "foo_note i =
     \<lparr>path = decimal i @ ''.md'', basename = decimal i, extension = ''md'', stat = Some 1,
      content = [CHR ''a'', CHR '' '', CHR 0x0A, CHR ''F'', CHR ''o'', CHR ''o'']\<rparr>"

definition foo_app :: "nat \<Rightarrow> App" where
  "foo_app n =
     \<lparr>vault = map (\<lambda>i. (decimal i @ ''.md'', AFile (foo_note i))) [0..<n],
      metadataCache = [], resolvedLinks = None, clock = 0, journal = []\<rparr>"

section \<open>Properties\<close>

lemma js_join_split: "js_join [sep] (js_split sep s) = s"
proof (induction s)
  case Nil
  show ?case by simp
next
  case (Cons c cs)
  show ?case
  proof (cases "js_split sep cs")
    case Nil
    with Cons show ?thesis by (auto split: if_splits)
  next
    case (Cons w ws)
    with Cons.IH show ?thesis by (cases ws) (auto split: if_splits)
  qed
qed

subsection \<open>The codec\<close>

text \<open>
  Claim C9.  The codec maps every raw frame to one string: a text frame is returned
  unchanged, a single binary buffer and a fixed-size binary buffer are decoded as UTF-8,
  a sequence of fragments is decoded as the in-order concatenation of the fragments, and
  any other frame yields the empty string.  \<open>rawToText\<close> is a total function with no
  error result: it has no raising branch.
\<close>

theorem rawToText_contract:
  "rawToText h (RawString t) = t
   \<and> rawToText h (RawBuffer b) = utf8ToString h b
   \<and> rawToText h (RawArrayBuffer b) = utf8ToString h b
   \<and> rawToText h (RawFragments bs) = utf8ToString h (concat bs)
   \<and> rawToText h (RawFragments (b # bs)) = rawToText h (RawBuffer (b @ concat bs))
   \<and> rawToText h RawOther = []"
  by simp

theorem rawToText_contract_witness:
  "rawToText sample_host (RawString ''hi'') = ''hi''
   \<and> rawToText sample_host (RawFragments [[104], [105, 33]]) = ''hi?''
   \<and> rawToText sample_host RawOther = []"
  using rawToText_contract [where h = sample_host and t = "''hi''" and b = "[104]" and bs = "[[105, 33]]"]
  by (simp add: sample_host_def)

subsection \<open>The registry\<close>

text \<open>
  Claim C8.  For every params object and context, dispatching the alias \<open>createNote\<close>
  gives exactly the result or error, and the store, that dispatching \<open>note.create\<close> gives:
  both names are bound to \<open>rpcNoteCreate\<close>.
\<close>

theorem createNote_alias:
  "dispatch (registerRpcMethods reg) ''createNote'' h params a v
     = dispatch (registerRpcMethods reg) ''note.create'' h params a v
   \<and> dispatch (registerRpcMethods reg) ''note.create'' h params a v = rpcNoteCreate h params a v
   \<and> registerRpcMethods reg ''createNote'' = registerRpcMethods reg ''note.create''"
  by (simp add: dispatch_def registerRpcMethods_def addMethod_def)

theorem createNote_alias_witness:
  "dispatch (registerRpcMethods Map.empty) ''createNote'' sample_host None empty_app 0
     = (Inl (Error ''Missing params.path''), empty_app)
   \<and> dispatch (registerRpcMethods Map.empty) ''note.create'' sample_host None empty_app 0
     = (Inl (Error ''Missing params.path''), empty_app)"
  using createNote_alias [of Map.empty sample_host None empty_app 0]
  by (simp add: rpcNoteCreate_def asRecord_def isRecord_def member_def stringOr_def trim_def
      trimEnd_def)

subsection \<open>The server supervisor\<close>

text \<open>
  Claim C10.  Calling \<open>start()\<close> on a server that is already listening is a no-op: no
  second listening socket is created, and the live-session set, the sessions and
  everything else are left as they were.
\<close>

theorem start_when_listening:
  assumes "rpcServer w = Some srv" and "wss srv \<noteq> None"
  shows "start w = w
         \<and> listeners (start w) = listeners w
         \<and> rpcServer (start w) = Some srv
         \<and> sessions (start w) = sessions w
         \<and> sockets (start w) = sockets w"
  using assms by (simp add: start_def)

theorem start_when_listening_witness:
  "rpcServer sample_world = Some \<lparr>wss = Some 0, clients = [1, 2]\<rparr>
   \<and> start sample_world = sample_world
   \<and> listeners (start sample_world) = 1"
  using start_when_listening [of sample_world "\<lparr>wss = Some 0, clients = [1, 2]\<rparr>"]
  by (simp add: sample_world_def)

lemma start_twice: "start (start w) = start w"
  by (auto simp: start_def split: option.splits)

subsection \<open>Frames that are dropped\<close>

lemma receiveAndSend_no_marker: "\<not> has_marker payload \<Longrightarrow> receiveAndSend h payload s w = w"
  by (cases payload) (simp_all add: receiveAndSend_def has_marker_def)

text \<open>
  Claim C7.  For every incoming frame whose decoded text is empty or is not parseable as
  JSON, and for every frame that parses to a value without the \<open>jsonrpc\<close> marker \<open>"2.0"\<close>,
  the message handler changes nothing: nothing is sent on any socket, neither a response
  nor an error.
\<close>

theorem malformed_frames_send_nothing:
  assumes "rawToText h raw = [] \<or> JSON_parse h (rawToText h raw) = None
           \<or> (\<exists>payload. JSON_parse h (rawToText h raw) = Some payload \<and> \<not> has_marker payload)"
  shows "on_message h s raw w = w
         \<and> (\<forall>s'. sent (sockets (on_message h s raw w) s') = sent (sockets w s'))"
proof (cases "rawToText h raw = []")
  case True
  then show ?thesis by (simp add: on_message_def)
next
  case False
  show ?thesis
  proof (cases "JSON_parse h (rawToText h raw)")
    case None
    then show ?thesis by (simp add: on_message_def Let_def)
  next
    case (Some payload)
    with assms False have "\<not> has_marker payload" by auto
    with Some show ?thesis by (simp add: on_message_def Let_def receiveAndSend_no_marker)
  qed
qed

theorem malformed_frames_send_nothing_witness:
  "on_message sample_host 1 (RawString ''{}'') sample_world = sample_world
   \<and> on_message sample_host 1 (RawString ''7'') sample_world = sample_world
   \<and> on_message sample_host 1 (RawString ''{'') sample_world = sample_world
   \<and> on_message sample_host 1 (RawFragments []) sample_world = sample_world"
proof -
  have a: "JSON_parse sample_host (rawToText sample_host (RawString ''{}'')) = Some (JObj [])"
    by (simp add: sample_host_def sample_parse_def)
  have b: "\<not> has_marker (JObj [])" by (simp add: has_marker_def)
  have c: "JSON_parse sample_host (rawToText sample_host (RawString ''7'')) = Some (JNum (Fin 7))"
    by (simp add: sample_host_def sample_parse_def)
  have d: "\<not> has_marker (JNum (Fin 7))" by (simp add: has_marker_def)
  have e: "JSON_parse sample_host (rawToText sample_host (RawString ''{'')) = None"
    by (simp add: sample_host_def sample_parse_def)
  have f: "rawToText sample_host (RawFragments []) = []"
    by (simp add: sample_host_def)
  show ?thesis
    using malformed_frames_send_nothing [of sample_host "RawString ''{}''" 1 sample_world]
      malformed_frames_send_nothing [of sample_host "RawString ''7''" 1 sample_world]
      malformed_frames_send_nothing [of sample_host "RawString ''{''" 1 sample_world]
      malformed_frames_send_nothing [of sample_host "RawFragments []" 1 sample_world]
      a b c d e f
    by blast
qed

subsection \<open>Closing a socket with outbound requests pending\<close>

lemma settlements_none: "i \<notin> set ids \<Longrightarrow> settlements i (map (\<lambda>j. (j, x)) ids) = []"
  by (induction ids) (auto simp: settlements_def)

lemma settlements_new:
  "distinct ids \<Longrightarrow> i \<in> set ids \<Longrightarrow> settlements i (map (\<lambda>j. (j, x)) ids) = [x]"
proof (induction ids)
  case Nil
  then show ?case by simp
next
  case (Cons a ids)
  show ?case
  proof (cases "i = a")
    case True
    with Cons.prems have "i \<notin> set ids" by simp
    from settlements_none [OF this, of x] True show ?thesis
      by (simp add: settlements_def)
  next
    case False
    with Cons show ?thesis by (simp add: settlements_def)
  qed
qed

lemma settlements_append: "settlements i (xs @ ys) = settlements i xs @ settlements i ys"
  by (simp add: settlements_def)

lemma on_close_session:
  "sessions (on_close h s code reason w) s
     = \<lparr>pending = [],
        settled = settled (sessions w s)
                  @ map (\<lambda>i. (i, Inl (close_message code (utf8ToString h reason)))) (pending (sessions w s))\<rparr>"
  by (simp add: on_close_def rejectAllPendingRequests_def Let_def)

lemma on_close_other: "s' \<noteq> s \<Longrightarrow> sessions (on_close h s code reason w) s' = sessions w s'"
  by (simp add: on_close_def rejectAllPendingRequests_def Let_def)

lemma close_message_embeds_code: "sublist (decimal code) (close_message code r)"
  unfolding close_message_def sublist_def by blast

lemma close_message_embeds_reason: "sublist r (close_message code r)"
proof (cases "r = []")
  case True
  then show ?thesis by simp
next
  case False
  have "close_message code r = (''Connection is closed ('' @ decimal code @ '': '') @ r @ '').''"
    using False by (simp add: close_message_def)
  then show ?thesis unfolding sublist_def by blast
qed

lemma on_close_twice_sessions:
  "sessions (on_close h s c2 r2 (on_close h s code reason w)) = sessions (on_close h s code reason w)"
  by (simp add: on_close_def rejectAllPendingRequests_def Let_def)

lemma stop_step_sessions:
  "sessions (ws_close c (rejectAllPendingRequests m c w)) s
     = (if c = s then \<lparr>pending = [], settled = settled (sessions w s) @ map (\<lambda>i. (i, Inl m)) (pending (sessions w s))\<rparr>
        else sessions w s)"
  by (simp add: ws_close_def rejectAllPendingRequests_def Let_def)

lemma stop_fold_drained:
  "pending (sessions w s) = [] \<Longrightarrow>
   sessions (foldl (\<lambda>w' c. ws_close c (rejectAllPendingRequests m c w')) w cs) s = sessions w s"
proof (induction cs arbitrary: w)
  case Nil
  then show ?case by simp
next
  case (Cons c cs)
  have eq: "sessions (ws_close c (rejectAllPendingRequests m c w)) s = sessions w s"
    using Cons.prems by (simp add: stop_step_sessions)
  then have "pending (sessions (ws_close c (rejectAllPendingRequests m c w)) s) = []"
    using Cons.prems by simp
  from Cons.IH [OF this] eq show ?case by simp
qed

lemma stop_drained:
  "pending (sessions w s) = [] \<Longrightarrow> sessions (stop w) s = sessions w s"
  by (cases "rpcServer w") (simp_all add: stop_def Let_def stop_fold_drained)

text \<open>
  The pending table holds each id once: an outbound call adds an id that is not pending,
  and a response removes one.  After \<open>stop()\<close> nothing is pending on a session that was in
  \<open>clients\<close>, so the close event that follows rejects nothing again.
\<close>

lemma fresh_id_above: "i \<in> set ids \<Longrightarrow> i < fresh_id ids"
  by (induction ids) (auto simp: fresh_id_def)

lemma fresh_id_new: "fresh_id ids \<notin> set ids"
  using fresh_id_above [of "fresh_id ids" ids] by auto

lemma callRemote_pending:
  "pending (sessions (callRemote m p s w) s) = pending (sessions w s) @ [fresh_id (pending (sessions w s))]"
  by (simp add: callRemote_def socket_send_def Let_def)

lemma callRemote_distinct:
  "distinct (pending (sessions w s)) \<Longrightarrow> distinct (pending (sessions (callRemote m p s w) s))"
  by (simp add: callRemote_pending fresh_id_new)

lemma settle_distinct:
  "distinct (pending (sessions w s)) \<Longrightarrow> distinct (pending (sessions (settle i out s' w) s))"
  by (auto simp: settle_def Let_def distinct_removeAll)

lemma stop_fold_pending:
  "s \<in> set cs \<Longrightarrow>
   pending (sessions (foldl (\<lambda>w' c. ws_close c (rejectAllPendingRequests m c w')) w cs) s) = []"
proof (induction cs arbitrary: w)
  case Nil
  then show ?case by simp
next
  case (Cons c cs)
  show ?case
  proof (cases "s \<in> set cs")
    case True
    from Cons.IH [OF this] show ?thesis by simp
  next
    case False
    with Cons.prems have "c = s" by simp
    then have "pending (sessions (ws_close c (rejectAllPendingRequests m c w)) s) = []"
      by (simp add: stop_step_sessions)
    from stop_fold_drained [OF this] this show ?thesis by simp
  qed
qed

lemma stop_then_close:
  assumes "s \<in> set (clients_of w)"
  shows "sessions (on_close h s code reason (stop w)) s = sessions (stop w) s"
proof -
  from assms obtain srv where srv: "rpcServer w = Some srv" "s \<in> set (clients srv)"
    by (cases "rpcServer w") (simp_all add: clients_of_def)
  then have "pending (sessions (stop w) s) = []"
    by (simp add: stop_def Let_def stop_fold_pending)
  then show ?thesis by (simp add: on_close_session)
qed

text \<open>
  Claim C4.  When a client socket closes while N outbound requests are pending on its
  session (the pending table holds each id once), none is left pending, N settlements are
  logged, and every one of the N has exactly one new settlement: a rejection whose message
  contains the close code in decimal and the reason text.  A later close event or a later
  \<open>stop()\<close> rejects nothing again.
\<close>

theorem close_rejects_all_pending_once:
  assumes "distinct (pending (sessions w s))"
  shows "pending (sessions (on_close h s code reason w) s) = []
    \<and> length (settled (sessions (on_close h s code reason w) s))
        = length (settled (sessions w s)) + length (pending (sessions w s))
    \<and> (\<forall>i \<in> set (pending (sessions w s)).
          settlements i (settled (sessions (on_close h s code reason w) s))
            = settlements i (settled (sessions w s)) @ [Inl (close_message code (utf8ToString h reason))])
    \<and> sublist (decimal code) (close_message code (utf8ToString h reason))
    \<and> sublist (utf8ToString h reason) (close_message code (utf8ToString h reason))
    \<and> sessions (on_close h s c2 r2 (on_close h s code reason w)) = sessions (on_close h s code reason w)
    \<and> sessions (stop (on_close h s code reason w)) s = sessions (on_close h s code reason w) s"
proof -
  let ?w' = "on_close h s code reason w"
  have p: "pending (sessions ?w' s) = []" by (simp add: on_close_session)
  have l: "length (settled (sessions ?w' s)) = length (settled (sessions w s)) + length (pending (sessions w s))"
    by (simp add: on_close_session)
  have e: "\<forall>i \<in> set (pending (sessions w s)).
          settlements i (settled (sessions ?w' s))
            = settlements i (settled (sessions w s)) @ [Inl (close_message code (utf8ToString h reason))]"
    using assms by (simp add: on_close_session settlements_append settlements_new)
  have st: "sessions (stop ?w') s = sessions ?w' s"
    using p by (rule stop_drained)
  show ?thesis
    using p l e st close_message_embeds_code close_message_embeds_reason on_close_twice_sessions
    by blast
qed

theorem close_rejects_all_pending_once_witness:
  "distinct (pending (sessions sample_world 1))
   \<and> pending (sessions (on_close sample_host 1 1001 [104, 105] sample_world) 1) = []
   \<and> settlements 4 (settled (sessions (on_close sample_host 1 1001 [104, 105] sample_world) 1))
       = [Inl ''Connection is closed (1001: hi).'']
   \<and> settlements 9 (settled (sessions (on_close sample_host 1 1001 [104, 105] sample_world) 1))
       = [Inl ''Connection is closed (1001: hi).'']"
proof -
  have d: "distinct (pending (sessions sample_world 1))" by (simp add: sample_world_def)
  have m: "close_message 1001 (utf8ToString sample_host [104, 105]) = ''Connection is closed (1001: hi).''"
    by (simp add: close_message_def decimal.simps sample_host_def)
  have s0: "settled (sessions sample_world 1) = []" "pending (sessions sample_world 1) = [4, 9]"
    by (simp_all add: sample_world_def)
  show ?thesis
    using close_rejects_all_pending_once [OF d, of sample_host 1001 "[104, 105]"] d m s0
    by (simp add: settlements_def)
qed

subsection \<open>Change notifications\<close>

lemma notify_sockets:
  "sockets (notify m p s w)
     = (if readyState (sockets w s) = OPEN
        then (sockets w)(s := (sockets w s)\<lparr>sent := sent (sockets w s) @ [Notification m p]\<rparr>)
        else sockets w)"
  by (simp add: notify_def socket_send_def)

lemma notify_frame:
  "graphVersion (notify m p s w) = graphVersion w \<and> rpcServer (notify m p s w) = rpcServer w
   \<and> sessions (notify m p s w) = sessions w \<and> store (notify m p s w) = store w
   \<and> listeners (notify m p s w) = listeners w \<and> notices (notify m p s w) = notices w"
  by (simp add: notify_def socket_send_def)

lemma notify_fold_frame:
  "graphVersion (foldl (\<lambda>w' s. notify m p s w') w cs) = graphVersion w
   \<and> rpcServer (foldl (\<lambda>w' s. notify m p s w') w cs) = rpcServer w
   \<and> sessions (foldl (\<lambda>w' s. notify m p s w') w cs) = sessions w"
  by (induction cs arbitrary: w) (simp_all add: notify_frame)

lemma notify_fold_sockets:
  "distinct cs \<Longrightarrow>
   sockets (foldl (\<lambda>w' s. notify m p s w') w cs) s
     = (if s \<in> set cs \<and> readyState (sockets w s) = OPEN
        then (sockets w s)\<lparr>sent := sent (sockets w s) @ [Notification m p]\<rparr>
        else sockets w s)"
proof (induction cs arbitrary: w)
  case Nil
  then show ?case by simp
next
  case (Cons c cs)
  from Cons.prems have d: "distinct cs" and n: "c \<notin> set cs" by simp_all
  show ?case
  proof (cases "s = c")
    case True
    with n Cons.IH [OF d, of "notify m p c w"] show ?thesis
      by (simp add: notify_sockets)
  next
    case False
    with Cons.IH [OF d, of "notify m p c w"] show ?thesis
      by (simp add: notify_sockets)
  qed
qed

lemma bump_version: "graphVersion (bumpGraphVersion w) = graphVersion w + 1"
  by (cases "rpcServer w") (simp_all add: bumpGraphVersion_def notifyAll_def Let_def notify_fold_frame)

lemma bump_server: "rpcServer (bumpGraphVersion w) = rpcServer w"
  by (cases "rpcServer w") (simp_all add: bumpGraphVersion_def notifyAll_def Let_def notify_fold_frame)

lemma bump_sockets:
  assumes "distinct (clients_of w)"
  shows "sockets (bumpGraphVersion w) s
     = (if live w s
        then (sockets w s)\<lparr>sent := sent (sockets w s)
                 @ [Notification ''graph.changed'' (version_params (graphVersion w + 1))]\<rparr>
        else sockets w s)"
proof (cases "rpcServer w")
  case None
  then show ?thesis
    by (simp add: bumpGraphVersion_def notifyAll_def Let_def live_def clients_of_def)
next
  case (Some srv)
  with assms have d: "distinct (clients srv)" by (simp add: clients_of_def)
  show ?thesis
    using Some notify_fold_sockets [OF d, of "''graph.changed''" "version_params (graphVersion w + 1)"
        "w\<lparr>graphVersion := graphVersion w + 1\<rparr>" s]
    by (simp add: bumpGraphVersion_def notifyAll_def Let_def live_def clients_of_def)
qed

lemma hello_sent:
  assumes "rpcServer w = Some srv" and "readyState (sockets w s) = OPEN"
  shows "sent (sockets (on_connection s w) s)
           = sent (sockets w s) @ [Notification ''hello'' (version_params (graphVersion w))]"
  using assms
  by (simp add: on_connection_def Let_def notify_def socket_send_def)

text \<open>The \<open>clients\<close> map holds a socket once, whatever the server does.\<close>

lemma distinct_set_add: "distinct xs \<Longrightarrow> distinct (set_add xs x)"
  by (simp add: set_add_def)

lemma clients_on_connection:
  "distinct (clients_of w) \<Longrightarrow> distinct (clients_of (on_connection s w))"
  by (cases "rpcServer w")
    (simp_all add: on_connection_def Let_def notify_frame clients_of_def distinct_set_add)

lemma clients_on_close:
  "distinct (clients_of w) \<Longrightarrow> distinct (clients_of (on_close h s code reason w))"
  by (cases "rpcServer w")
    (simp_all add: on_close_def Let_def rejectAllPendingRequests_def clients_of_def distinct_removeAll)

lemma clients_stop: "distinct (clients_of (stop w))"
  by (cases "rpcServer w") (simp_all add: stop_def Let_def clients_of_def)

lemma clients_bump: "clients_of (bumpGraphVersion w) = clients_of w"
  by (simp add: clients_of_def bump_server)

text \<open>
  Claim C5.  Every domain mutation event (note modified, created, deleted or renamed)
  increments the change version by exactly 1 and sends exactly one \<open>graph.changed\<close>
  notification carrying the new version (its parameters are the object whose one member
  \<open>version\<close> is the old version plus 1) to every live session (a socket entered in
  \<open>clients\<close> and open), and nothing to any other socket; a session that connects afterwards
  receives the new version, in the same form, in its \<open>hello\<close> notification.
\<close>

theorem mutation_bumps_and_notifies:
  assumes "distinct (clients_of w)"
  shows "graphVersion (on_vault_event ev w) = graphVersion w + 1
    \<and> (\<forall>s. live w s \<longrightarrow>
          sent (sockets (on_vault_event ev w) s)
            = sent (sockets w s)
              @ [Notification ''graph.changed''
                   (JObj [(''version'', JNum (Fin (of_nat (graphVersion w + 1))))])])
    \<and> (\<forall>s. \<not> live w s \<longrightarrow> sent (sockets (on_vault_event ev w) s) = sent (sockets w s))
    \<and> (\<forall>s srv. rpcServer (on_vault_event ev w) = Some srv
                 \<and> readyState (sockets (on_vault_event ev w) s) = OPEN \<longrightarrow>
          sent (sockets (on_connection s (on_vault_event ev w)) s)
            = sent (sockets (on_vault_event ev w) s)
              @ [Notification ''hello''
                   (JObj [(''version'', JNum (Fin (of_nat (graphVersion w + 1))))])])"
proof -
  have v: "graphVersion (on_vault_event ev w) = graphVersion w + 1"
    by (simp add: on_vault_event_def bump_version)
  have a: "\<forall>s. live w s \<longrightarrow>
          sent (sockets (on_vault_event ev w) s)
            = sent (sockets w s)
              @ [Notification ''graph.changed''
                   (JObj [(''version'', JNum (Fin (of_nat (graphVersion w + 1))))])]"
    using assms by (simp add: on_vault_event_def bump_sockets version_params_def)
  have b: "\<forall>s. \<not> live w s \<longrightarrow> sent (sockets (on_vault_event ev w) s) = sent (sockets w s)"
    using assms by (simp add: on_vault_event_def bump_sockets version_params_def)
  have c: "\<forall>s srv. rpcServer (on_vault_event ev w) = Some srv
                 \<and> readyState (sockets (on_vault_event ev w) s) = OPEN \<longrightarrow>
          sent (sockets (on_connection s (on_vault_event ev w)) s)
            = sent (sockets (on_vault_event ev w) s)
              @ [Notification ''hello''
                   (JObj [(''version'', JNum (Fin (of_nat (graphVersion w + 1))))])]"
    using hello_sent [of "on_vault_event ev w"] v by (simp add: version_params_def)
  from v a b c show ?thesis by blast
qed

theorem mutation_bumps_and_notifies_witness:
  "distinct (clients_of sample_world)
   \<and> live sample_world 1 \<and> \<not> live sample_world 2
   \<and> graphVersion (on_vault_event Rename sample_world) = 4
   \<and> sent (sockets (on_vault_event Rename sample_world) 1)
       = [Notification ''graph.changed'' (JObj [(''version'', JNum (Fin 4))])]
   \<and> sent (sockets (on_vault_event Rename sample_world) 2) = []
   \<and> sent (sockets (on_connection 3 (on_vault_event Rename sample_world)) 3)
       = [Notification ''hello'' (JObj [(''version'', JNum (Fin 4))])]"
proof -
  have d: "distinct (clients_of sample_world)"
    by (simp add: clients_of_def sample_world_def)
  have l: "live sample_world 1" "\<not> live sample_world 2" "\<not> live sample_world 3"
    by (simp_all add: live_def clients_of_def sample_world_def)
  have g: "graphVersion sample_world = 3" "sent (sockets sample_world 1) = []"
    "sent (sockets sample_world 2) = []" "sent (sockets sample_world 3) = []"
    "readyState (sockets sample_world 3) = OPEN"
    by (simp_all add: sample_world_def)
  have srv: "rpcServer (on_vault_event Rename sample_world) = Some \<lparr>wss = Some 0, clients = [1, 2]\<rparr>"
    by (simp add: on_vault_event_def bump_server sample_world_def)
  have o: "readyState (sockets (on_vault_event Rename sample_world) 3) = OPEN"
    using l(3) g(5) by (simp add: on_vault_event_def bump_sockets [OF d])
  show ?thesis
    using mutation_bumps_and_notifies [OF d, of Rename] d l g srv o
    by simp
qed

subsection \<open>The preview of a note\<close>

lemma js_split_nonempty: "js_split sep s \<noteq> []"
  by (induction s) (auto split: list.splits)

lemma js_split_no_sep: "w \<in> set (js_split sep s) \<Longrightarrow> sep \<notin> set w"
proof (induction s arbitrary: w)
  case Nil
  then show ?case by simp
next
  case (Cons c cs)
  then show ?case
    by (cases "js_split sep cs") (auto split: if_splits)
qed

lemma js_join_Cons: "ws \<noteq> [] \<Longrightarrow> js_join sep (w # ws) = w @ sep @ js_join sep ws"
  by (cases ws) simp_all

lemma js_split_append_sep:
  "sep \<notin> set w \<Longrightarrow> js_split sep (w @ sep # rest) = w # js_split sep rest"
  by (induction w) (auto)

lemma js_split_no_sep_id: "sep \<notin> set w \<Longrightarrow> js_split sep w = [w]"
  by (induction w) auto

lemma js_split_join:
  "ws \<noteq> [] \<Longrightarrow> \<forall>w \<in> set ws. sep \<notin> set w \<Longrightarrow> js_split sep (js_join [sep] ws) = ws"
proof (induction ws)
  case Nil
  then show ?case by simp
next
  case (Cons w ws)
  show ?case
  proof (cases ws)
    case Nil
    with Cons.prems show ?thesis by (simp add: js_split_no_sep_id)
  next
    case (Cons v vs)
    with Cons.prems Cons.IH show ?thesis
      by (simp add: js_split_append_sep)
  qed
qed

lemma js_join_take_prefix: "prefix (js_join sep (take n ws)) (js_join sep ws)"
proof (induction ws arbitrary: n)
  case Nil
  then show ?case by simp
next
  case (Cons w ws)
  show ?case
  proof (cases n)
    case 0
    then show ?thesis by simp
  next
    case (Suc k)
    show ?thesis
    proof (cases ws)
      case Nil
      with Suc show ?thesis by simp
    next
      case (Cons v vs)
      show ?thesis
      proof (cases k)
        case 0
        with Suc Cons show ?thesis by simp
      next
        case (Suc j)
        have ne: "take k ws \<noteq> []" using Suc Cons by simp
        have "prefix (js_join sep (take k ws)) (js_join sep ws)" by (rule Cons.IH)
        then show ?thesis
          using \<open>n = Suc k\<close> Cons ne by (simp add: js_join_Cons)
      qed
    qed
  qed
qed

lemma first_lines:
  assumes "0 < n"
  shows "js_split sep (js_join [sep] (take n (js_split sep s))) = take n (js_split sep s)"
    and "prefix (js_join [sep] (take n (js_split sep s))) s"
    and "length (js_split sep s) \<le> n \<Longrightarrow> js_join [sep] (take n (js_split sep s)) = s"
proof -
  have ne: "take n (js_split sep s) \<noteq> []" using assms js_split_nonempty [of sep s] by simp
  have ns: "\<forall>w \<in> set (take n (js_split sep s)). sep \<notin> set w"
    using js_split_no_sep by (metis in_set_takeD)
  show "js_split sep (js_join [sep] (take n (js_split sep s))) = take n (js_split sep s)"
    using js_split_join [OF ne ns] .
  show "prefix (js_join [sep] (take n (js_split sep s))) s"
    using js_join_take_prefix [of "[sep]" n "js_split sep s"] by (simp add: js_join_split)
  show "length (js_split sep s) \<le> n \<Longrightarrow> js_join [sep] (take n (js_split sep s)) = s"
    by (simp add: js_join_split)
qed

lemma collect_fold:
  "distinct acc \<Longrightarrow>
   distinct (foldl (\<lambda>s t. if t \<noteq> [] then set_add s (tag_name t) else s) acc ts)
   \<and> set (foldl (\<lambda>s t. if t \<noteq> [] then set_add s (tag_name t) else s) acc ts)
       = set acc \<union> tag_name ` {t \<in> set ts. t \<noteq> []}"
proof (induction ts arbitrary: acc)
  case Nil
  then show ?case by simp
next
  case (Cons t ts)
  have d: "distinct (if t \<noteq> [] then set_add acc (tag_name t) else acc)"
    using Cons.prems by (simp add: set_add_def)
  from Cons.IH [OF d] show ?case
    by (auto simp: set_add_def)
qed

lemma collectTags_distinct: "distinct (collectTags c)"
  using collect_fold [of "[]"] by (simp add: collectTags_def split: option.splits)

lemma tag_name_strips: "tag_name (CHR ''#'' # t) = t" "t \<noteq> [] \<Longrightarrow> hd t \<noteq> CHR ''#'' \<Longrightarrow> tag_name t = t"
  by (cases t; simp add: tag_name_def startsWith_def)+


lemma getPreview_fails:
  "(\<exists>e. fst (rpcNoteGetPreview h params a v) = Inl e)
     \<longleftrightarrow> (path_param params = []
          \<or> getAbstractFileByPath a (path_param params) = None
          \<or> (\<exists>x. getAbstractFileByPath a (path_param params) = Some x \<and> \<not> is_file x))"
  by (auto simp: rpcNoteGetPreview_def path_param_def Let_def is_file_def cachedRead_def
      split: option.splits TAbstractFile.splits)

lemma getPreview_result:
  assumes "path_param params \<noteq> []" and "getAbstractFileByPath a (path_param params) = Some (AFile f)"
  shows "rpcNoteGetPreview h params a v =
           (Inr (Preview \<lparr>preview_path = path f, preview_title = basename f,
                          preview_mtime = mtime_of f,
                          preview_tags = collectTags (getFileCache a f),
                          excerpt = js_join [CHR 0x0A] (take 30 (js_split (CHR 0x0A) (content f)))\<rparr>),
            a\<lparr>journal := journal a @ [CachedRead (path f)]\<rparr>)"
  using assms
  by (simp add: rpcNoteGetPreview_def path_param_def Let_def cachedRead_def)

lemma collectTags_set:
  "getFileCache a f = Some c \<Longrightarrow> tags c = Some ts \<Longrightarrow>
   set (collectTags (getFileCache a f)) = tag_name ` {t \<in> set ts. t \<noteq> []}"
  using collect_fold [of "[]" ts] by (simp add: collectTags_def)

lemma sample_preview:
  "rpcNoteGetPreview sample_host (Some (JObj [(''path'', JStr ''n.md'')])) sample_app 0
     = (Inr (Preview \<lparr>preview_path = ''n.md'', preview_title = ''n'', preview_mtime = 5,
                      preview_tags = [''t'', ''u''], excerpt = [CHR ''x'', CHR 0x0A, CHR ''y'']\<rparr>),
        sample_app\<lparr>journal := [CachedRead ''n.md'']\<rparr>)"
  by (simp add: rpcNoteGetPreview_def asRecord_def isRecord_def member_def stringOr_def
      getAbstractFileByPath_def sample_app_def sample_note_def collectTags_def getFileCache_def
      set_add_def tag_name_def startsWith_def cachedRead_def mtime_of_def Let_def)


text \<open>
  Claim C6.  For every params object, \<open>note.getPreview\<close> fails with an error if and only if
  the path is missing (absent, not a string, or empty), names nothing in the store, or names
  an entry that is not a file; otherwise it returns the file's path, title and modification
  time, its tags without duplicates, each tag of the cache with its leading \<open>#\<close> removed, and
  an excerpt whose lines are the first 30 lines of the content (a prefix of the content).
\<close>

theorem getPreview_contract:
  "((\<exists>e. fst (rpcNoteGetPreview h params a v) = Inl e)
     \<longleftrightarrow> (path_param params = []
          \<or> getAbstractFileByPath a (path_param params) = None
          \<or> (\<exists>x. getAbstractFileByPath a (path_param params) = Some x \<and> \<not> is_file x)))
   \<and> (\<forall>f. path_param params \<noteq> [] \<and> getAbstractFileByPath a (path_param params) = Some (AFile f) \<longrightarrow>
         (\<exists>r. fst (rpcNoteGetPreview h params a v) = Inr (Preview r)
            \<and> preview_path r = path f \<and> preview_title r = basename f
            \<and> preview_mtime r = (case stat f of None \<Rightarrow> 0 | Some m \<Rightarrow> m)
            \<and> distinct (preview_tags r)
            \<and> (\<forall>c ts. getFileCache a f = Some c \<and> tags c = Some ts \<longrightarrow>
                  set (preview_tags r) = tag_name ` {t \<in> set ts. t \<noteq> []})
            \<and> js_split (CHR 0x0A) (excerpt r) = take 30 (js_split (CHR 0x0A) (content f))
            \<and> prefix (excerpt r) (content f)))
   \<and> (\<forall>t. tag_name (CHR ''#'' # t) = t)"
proof -
  have r: "\<forall>f. path_param params \<noteq> [] \<and> getAbstractFileByPath a (path_param params) = Some (AFile f) \<longrightarrow>
         (\<exists>r. fst (rpcNoteGetPreview h params a v) = Inr (Preview r)
            \<and> preview_path r = path f \<and> preview_title r = basename f
            \<and> preview_mtime r = (case stat f of None \<Rightarrow> 0 | Some m \<Rightarrow> m)
            \<and> distinct (preview_tags r)
            \<and> (\<forall>c ts. getFileCache a f = Some c \<and> tags c = Some ts \<longrightarrow>
                  set (preview_tags r) = tag_name ` {t \<in> set ts. t \<noteq> []})
            \<and> js_split (CHR 0x0A) (excerpt r) = take 30 (js_split (CHR 0x0A) (content f))
            \<and> prefix (excerpt r) (content f))"
  proof (intro allI impI)
    fix f
    assume a: "path_param params \<noteq> [] \<and> getAbstractFileByPath a (path_param params) = Some (AFile f)"
    let ?r = "\<lparr>preview_path = path f, preview_title = basename f,
                          preview_mtime = mtime_of f,
                          preview_tags = collectTags (getFileCache a f),
                          excerpt = js_join [CHR 0x0A] (take 30 (js_split (CHR 0x0A) (content f)))\<rparr>"
    have 1: "fst (rpcNoteGetPreview h params a v) = Inr (Preview ?r)"
      using a by (simp add: getPreview_result)
    have 2: "\<forall>c ts. getFileCache a f = Some c \<and> tags c = Some ts \<longrightarrow>
                  set (preview_tags ?r) = tag_name ` {t \<in> set ts. t \<noteq> []}"
      using collectTags_set [of a f] by simp
    have 3: "js_split (CHR 0x0A) (excerpt ?r) = take 30 (js_split (CHR 0x0A) (content f))"
      using first_lines(1) [of 30 "CHR 0x0A" "content f"] by simp
    have 4: "prefix (excerpt ?r) (content f)"
      using first_lines(2) [of 30 "CHR 0x0A" "content f"] by simp
    have 5: "preview_mtime ?r = (case stat f of None \<Rightarrow> 0 | Some m \<Rightarrow> m)"
      by (simp add: mtime_of_def)
    have 6: "distinct (preview_tags ?r)" by (simp add: collectTags_distinct)
    show "\<exists>r. fst (rpcNoteGetPreview h params a v) = Inr (Preview r)
            \<and> preview_path r = path f \<and> preview_title r = basename f
            \<and> preview_mtime r = (case stat f of None \<Rightarrow> 0 | Some m \<Rightarrow> m)
            \<and> distinct (preview_tags r)
            \<and> (\<forall>c ts. getFileCache a f = Some c \<and> tags c = Some ts \<longrightarrow>
                  set (preview_tags r) = tag_name ` {t \<in> set ts. t \<noteq> []})
            \<and> js_split (CHR 0x0A) (excerpt r) = take 30 (js_split (CHR 0x0A) (content f))
            \<and> prefix (excerpt r) (content f)"
      apply (rule exI [of _ ?r])
      using 1 2 3 4 5 6 apply simp
      done
  qed
  show ?thesis
    using getPreview_fails [of h params a v] r tag_name_strips(1) by blast
qed

theorem getPreview_contract_witness:
  "fst (rpcNoteGetPreview sample_host (Some (JObj [(''path'', JStr ''n.md'')])) sample_app 0)
     = Inr (Preview \<lparr>preview_path = ''n.md'', preview_title = ''n'', preview_mtime = 5,
                      preview_tags = [''t'', ''u''], excerpt = [CHR ''x'', CHR 0x0A, CHR ''y'']\<rparr>)
   \<and> (\<exists>e. fst (rpcNoteGetPreview sample_host (Some (JObj [(''path'', JStr ''dir'')])) sample_app 0) = Inl e)
   \<and> (\<exists>e. fst (rpcNoteGetPreview sample_host (Some (JObj [(''path'', JStr ''zz'')])) sample_app 0) = Inl e)
   \<and> (\<exists>e. fst (rpcNoteGetPreview sample_host None sample_app 0) = Inl e)"
proof -
  have a: "path_param (Some (JObj [(''path'', JStr ''dir'')])) = ''dir''"
    "path_param (Some (JObj [(''path'', JStr ''zz'')])) = ''zz''"
    "path_param None = []"
    by (simp_all add: path_param_def asRecord_def isRecord_def member_def stringOr_def)
  have b: "getAbstractFileByPath sample_app ''dir'' = Some (AFolder ''dir'')"
    "getAbstractFileByPath sample_app ''zz'' = None"
    by (simp_all add: getAbstractFileByPath_def sample_app_def)
  have c: "\<not> is_file (AFolder ''dir'')" by (simp add: is_file_def)
  show ?thesis
    using getPreview_contract [of sample_host "Some (JObj [(''path'', JStr ''dir'')])" sample_app 0]
      getPreview_contract [of sample_host "Some (JObj [(''path'', JStr ''zz'')])" sample_app 0]
      getPreview_contract [of sample_host None sample_app 0]
      a b c sample_preview
    by simp
qed

subsection \<open>The graph snapshot\<close>

lemma since_cases:
  "since_param params = JNum (Fin (- 1)) \<and> \<not> supplied_current h params v
   \<or> (\<exists>x. member (asRecord params) ''sinceVersion'' = Some x \<and> x \<noteq> JNull \<and> since_param params = x)"
  by (auto simp: since_param_def nullish_def supplied_current_def split: option.splits json.splits)

lemma Number_js_convertible:
  "convertible x \<Longrightarrow> \<exists>n. Number_js h x = Inr n"
  by (simp add: Number_js_def)

lemma Number_js_unconvertible:
  "\<not> convertible x \<Longrightarrow> Number_js h x = Inl (TypeError ''Cannot convert object to primitive value'')"
  by (simp add: Number_js_def)

lemma Number_js_default: "Number_js h (JNum n) = Inr n"
  by (simp add: Number_js_def)

lemma getSnapshot_value:
  assumes "Number_js h (since_param params) = Inr n"
  shows "rpcGraphGetSnapshot h params a v =
           (if js_ge n (Fin 0) \<and> js_ge n (Fin (of_nat v)) then (Inr (Unchanged v), a)
            else (Inr (Snapshot \<lparr>version = v, nodes = map (graphNode a) (getMarkdownFiles a),
                                 edges = graphEdges a\<rparr>), a))"
  using assms by (simp add: rpcGraphGetSnapshot_def since_param_def Let_def)

lemma supplied_current_eq:
  assumes "Number_js h (since_param params) = Inr n"
  shows "supplied_current h params v \<longleftrightarrow> js_ge n (Fin 0) \<and> js_ge n (Fin (of_nat v))"
proof -
  from since_cases [of params h v] show ?thesis
  proof
    assume d: "since_param params = JNum (Fin (- 1)) \<and> \<not> supplied_current h params v"
    with assms have "n = Fin (- 1)" by (simp add: Number_js_default)
    with d show ?thesis by simp
  next
    assume "\<exists>x. member (asRecord params) ''sinceVersion'' = Some x \<and> x \<noteq> JNull \<and> since_param params = x"
    then obtain x where x: "member (asRecord params) ''sinceVersion'' = Some x" "x \<noteq> JNull"
      "since_param params = x" by blast
    with assms show ?thesis
      by (cases x) (simp_all add: supplied_current_def)
  qed
qed

lemma getSnapshot_unconvertible:
  "\<not> convertible (since_param params) \<Longrightarrow>
   rpcGraphGetSnapshot h params a v = (Inl (TypeError ''Cannot convert object to primitive value''), a)"
  by (simp add: rpcGraphGetSnapshot_def since_param_def Let_def Number_js_unconvertible)

lemma sample_snapshot: "rpcGraphGetSnapshot sample_host (Some (JObj [(''sinceVersion'', JNum (Fin 2))])) sample_app 3
   = (Inr (Snapshot \<lparr>version = 3,
        nodes = [\<lparr>node_id = ''n.md'', node_path = ''n.md'', node_title = ''n'', node_mtime = 5, node_tags = [''t'', ''u'']\<rparr>],
        edges = [\<lparr>source = ''n.md'', target = ''m.md'', count = 2\<rparr>]\<rparr>), sample_app)"
  by (simp add: rpcGraphGetSnapshot_def asRecord_def isRecord_def member_def nullish_def Number_js_def
      getMarkdownFiles_def sample_app_def sample_note_def graphNode_def graphEdges_def collectTags_def
      getFileCache_def set_add_def tag_name_def startsWith_def mtime_of_def List.map_filter_simps)


text \<open>
  Claim C1, as amended.  For every params object whose \<open>sinceVersion\<close>, if supplied, can be
  converted to a number (every number, string, boolean, and every array or object with no
  \<open>toString\<close> member of its own inside), \<open>graph.getSnapshot\<close> returns
  \<open>{version, changed: false}\<close> if and only if a \<open>sinceVersion\<close> \<open>V\<close> is supplied with
  \<open>V >= 0\<close> and \<open>V >=\<close> the current change version; otherwise it returns a full snapshot
  whose version is the current change version, with one node per markdown file of the
  store, in order, and the edges of the resolved links; the call does not fail and leaves
  the store as it was.
\<close>

theorem getSnapshot_contract:
  assumes "convertible (since_param params)"
  shows "(fst (rpcGraphGetSnapshot h params a v) = Inr (Unchanged v) \<longleftrightarrow> supplied_current h params v)
    \<and> (\<not> supplied_current h params v \<longrightarrow>
         fst (rpcGraphGetSnapshot h params a v)
           = Inr (Snapshot \<lparr>version = v, nodes = map (graphNode a) (getMarkdownFiles a),
                            edges = graphEdges a\<rparr>))
    \<and> (\<forall>e. fst (rpcGraphGetSnapshot h params a v) \<noteq> Inl e)
    \<and> snd (rpcGraphGetSnapshot h params a v) = a
    \<and> map node_id (map (graphNode a) (getMarkdownFiles a)) = map path (getMarkdownFiles a)"
proof -
  from Number_js_convertible [OF assms] obtain n where n: "Number_js h (since_param params) = Inr n"
    by blast
  have m: "map node_id (map (graphNode a) (getMarkdownFiles a)) = map path (getMarkdownFiles a)"
    by (simp add: graphNode_def)
  show ?thesis
    using getSnapshot_value [OF n, of a v] supplied_current_eq [OF n, of v] m
    by simp
qed

theorem getSnapshot_contract_witness:
  "convertible (since_param (Some (JObj [(''sinceVersion'', JNum (Fin 2))])))
   \<and> convertible (since_param (Some (JObj [(''sinceVersion'', JNum (Fin 3))])))
   \<and> convertible (since_param None)
   \<and> fst (rpcGraphGetSnapshot sample_host (Some (JObj [(''sinceVersion'', JNum (Fin 3))])) sample_app 3)
       = Inr (Unchanged 3)
   \<and> fst (rpcGraphGetSnapshot sample_host (Some (JObj [(''sinceVersion'', JNum (Fin 2))])) sample_app 3)
       = Inr (Snapshot \<lparr>version = 3,
            nodes = [\<lparr>node_id = ''n.md'', node_path = ''n.md'', node_title = ''n'', node_mtime = 5,
                      node_tags = [''t'', ''u'']\<rparr>],
            edges = [\<lparr>source = ''n.md'', target = ''m.md'', count = 2\<rparr>]\<rparr>)
   \<and> \<not> supplied_current sample_host None 0"
proof -
  have c: "convertible (since_param (Some (JObj [(''sinceVersion'', JNum (Fin 2))])))"
    "convertible (since_param (Some (JObj [(''sinceVersion'', JNum (Fin 3))])))"
    "convertible (since_param None)"
    by (simp_all add: since_param_def asRecord_def isRecord_def member_def nullish_def)
  have s: "supplied_current sample_host (Some (JObj [(''sinceVersion'', JNum (Fin 3))])) 3"
    "\<not> supplied_current sample_host None 0"
    by (simp_all add: supplied_current_def asRecord_def isRecord_def member_def Number_js_def)
  show ?thesis
    using getSnapshot_contract [OF c(2), of sample_host sample_app 3]
      getSnapshot_contract [OF c(3), of sample_host sample_app 0] c s sample_snapshot
    by simp
qed

text \<open>
  The claim as stated ("for every params object ... the call never fails") is false: the
  conversion \<open>Number(p.sinceVersion ?? -1)\<close> throws on an object that has a \<open>toString\<close>
  member of its own, here the parameters \<open>{"sinceVersion": {"toString": null}}\<close>.
\<close>

theorem getSnapshot_fails_on_unconvertible: "fst (rpcGraphGetSnapshot sample_host
            (Some (JObj [(''sinceVersion'', JObj [(''toString'', JNull)])])) sample_app 0)
         = Inl (TypeError ''Cannot convert object to primitive value'')"
  by (simp add: rpcGraphGetSnapshot_def asRecord_def isRecord_def member_def nullish_def Number_js_def)


subsection \<open>The search\<close>

lemma hits_in_Cons:
  "hits_in h q (f # fs) = (case hit h q f of None \<Rightarrow> hits_in h q fs | Some r \<Rightarrow> r # hits_in h q fs)"
  by (cases "hit h q f") (simp_all add: hits_in_def)

lemma hits_in_Nil: "hits_in h q [] = []"
  by (simp add: hits_in_def)

lemma searchLoop_Cons:
  "searchLoop h limit q (f # fs) res app =
     (if js_ge (Fin (of_nat (length res))) limit then (res, app)
      else searchLoop h limit q fs (res @ hits_in h q [f]) (app\<lparr>journal := journal app @ [CachedRead (path f)]\<rparr>))"
  by (simp add: cachedRead_def hits_in_Cons hits_in_Nil hit_def split: option.splits)

lemma hits_in_append_one: "hits_in h q [f] @ hits_in h q fs = hits_in h q (f # fs)"
  by (simp add: hits_in_Cons hits_in_Nil split: option.splits)

lemma searchLoop_scan:
  "\<exists>k \<le> length fs.
     searchLoop h limit q fs res app
       = (res @ hits_in h q (take k fs),
          app\<lparr>journal := journal app @ map (\<lambda>f. CachedRead (path f)) (take k fs)\<rparr>)
     \<and> (k < length fs \<longrightarrow> js_ge (Fin (of_nat (length (res @ hits_in h q (take k fs))))) limit)
     \<and> (\<forall>j < k. \<not> js_ge (Fin (of_nat (length (res @ hits_in h q (take j fs))))) limit)"
proof (induction fs arbitrary: res app)
  case Nil
  show ?case by (simp add: hits_in_Nil)
next
  case (Cons f fs)
  show ?case
  proof (cases "js_ge (Fin (of_nat (length res))) limit")
    case True
    have "searchLoop h limit q (f # fs) res app = (res, app)"
      using True by (simp only: searchLoop_Cons if_True)
    then show ?thesis
      using True by (intro exI [of _ 0]) (simp add: hits_in_Nil)
  next
    case False
    let ?res = "res @ hits_in h q [f]"
    let ?app = "app\<lparr>journal := journal app @ [CachedRead (path f)]\<rparr>"
    from Cons.IH [of ?res ?app] obtain k where k: "k \<le> length fs"
      "searchLoop h limit q fs ?res ?app
         = (?res @ hits_in h q (take k fs),
            ?app\<lparr>journal := journal ?app @ map (\<lambda>f. CachedRead (path f)) (take k fs)\<rparr>)"
      "k < length fs \<longrightarrow> js_ge (Fin (of_nat (length (?res @ hits_in h q (take k fs))))) limit"
      "\<forall>j < k. \<not> js_ge (Fin (of_nat (length (?res @ hits_in h q (take j fs))))) limit"
      by blast
    have step: "searchLoop h limit q (f # fs) res app = searchLoop h limit q fs ?res ?app"
      using False by (simp only: searchLoop_Cons if_False)
    have r: "\<And>n. ?res @ hits_in h q (take n fs) = res @ hits_in h q (take (Suc n) (f # fs))"
      by (simp add: hits_in_append_one)
    have 1: "searchLoop h limit q (f # fs) res app
       = (res @ hits_in h q (take (Suc k) (f # fs)),
          app\<lparr>journal := journal app @ map (\<lambda>f. CachedRead (path f)) (take (Suc k) (f # fs))\<rparr>)"
    proof -
      have j: "?app\<lparr>journal := journal ?app @ map (\<lambda>f. CachedRead (path f)) (take k fs)\<rparr>
            = app\<lparr>journal := journal app @ map (\<lambda>f. CachedRead (path f)) (take (Suc k) (f # fs))\<rparr>"
        by simp
      show ?thesis
        by (simp only: step k(2) r [of k] j)
    qed
    have 2: "Suc k < length (f # fs) \<longrightarrow>
        js_ge (Fin (of_nat (length (res @ hits_in h q (take (Suc k) (f # fs)))))) limit"
    proof -
      from k(3) have "k < length fs \<longrightarrow>
          js_ge (Fin (of_nat (length (res @ hits_in h q (take (Suc k) (f # fs)))))) limit"
        by (simp only: r)
      then show ?thesis by simp
    qed
    have 3: "\<forall>j < Suc k. \<not> js_ge (Fin (of_nat (length (res @ hits_in h q (take j (f # fs)))))) limit"
    proof (intro allI impI)
      fix j assume j: "j < Suc k"
      show "\<not> js_ge (Fin (of_nat (length (res @ hits_in h q (take j (f # fs)))))) limit"
      proof (cases j)
        case 0
        with False show ?thesis by (simp add: hits_in_Nil)
      next
        case (Suc i)
        with j have "i < k" by simp
        with k(4) have "\<not> js_ge (Fin (of_nat (length (?res @ hits_in h q (take i fs))))) limit" by blast
        then have "\<not> js_ge (Fin (of_nat (length (res @ hits_in h q (take (Suc i) (f # fs)))))) limit"
          by (simp only: r not_False_eq_True)
        with Suc show ?thesis by simp
      qed
    qed
    from k(1) have 0: "Suc k \<le> length (f # fs)" by simp
    from 0 1 2 3 show ?thesis by blast
  qed
qed

lemma hits_in_one_length: "length (hits_in h q [f]) \<le> 1"
  by (simp add: hits_in_Cons hits_in_Nil split: option.splits)

lemma below_limit: "\<not> js_ge (Fin (of_nat m)) (Fin x) \<Longrightarrow> Suc m \<le> nat \<lceil>x\<rceil>"
proof -
  assume "\<not> js_ge (Fin (of_nat m)) (Fin x)"
  then have "of_nat m < x" by simp
  then have "of_int (int m) < x" by simp
  then have "int m < \<lceil>x\<rceil>" by (simp only: less_ceiling_iff)
  then show ?thesis by linarith
qed

lemma searchLoop_bound:
  "length res \<le> nat \<lceil>x\<rceil> \<Longrightarrow> length (fst (searchLoop h (Fin x) q fs res app)) \<le> nat \<lceil>x\<rceil>"
proof (induction fs arbitrary: res app)
  case Nil
  then show ?case by simp
next
  case (Cons f fs)
  show ?case
  proof (cases "js_ge (Fin (of_nat (length res))) (Fin x)")
    case True
    then have "searchLoop h (Fin x) q (f # fs) res app = (res, app)"
      by (simp only: searchLoop_Cons if_True)
    with Cons.prems show ?thesis by simp
  next
    case False
    from below_limit [OF False] hits_in_one_length [of h q f]
    have "length (res @ hits_in h q [f]) \<le> nat \<lceil>x\<rceil>" by simp
    from Cons.IH [OF this] False show ?thesis
      by (simp only: searchLoop_Cons if_False)
  qed
qed

lemma searchLoop_NegInf: "searchLoop h NegInf q fs res app = (res, app)"
  by (cases fs) (simp_all only: searchLoop.simps searchLoop_Cons js_ge.simps if_True)

lemma searchLoop_NaN:
  "fst (searchLoop h NaN q fs res app) = res @ hits_in h q fs"
proof (induction fs arbitrary: res app)
  case Nil
  then show ?case by (simp add: hits_in_Nil)
next
  case (Cons f fs)
  have "searchLoop h NaN q (f # fs) res app
        = searchLoop h NaN q fs (res @ hits_in h q [f]) (app\<lparr>journal := journal app @ [CachedRead (path f)]\<rparr>)"
    by (simp only: searchLoop_Cons js_ge.simps if_False)
  with Cons.IH show ?case by (simp add: hits_in_append_one)
qed

lemma Math_min_200:
  "n \<noteq> NaN \<Longrightarrow> Math_min n (Fin 200) = NegInf \<or> (\<exists>x. Math_min n (Fin 200) = Fin x \<and> x \<le> 200)"
  by (cases n) auto

lemma searchLoop_cap:
  assumes "n \<noteq> NaN"
  shows "length (fst (searchLoop h (Math_min n (Fin 200)) q fs [] app)) \<le> result_cap (Math_min n (Fin 200))
         \<and> result_cap (Math_min n (Fin 200)) \<le> 200"
proof -
  from Math_min_200 [OF assms] show ?thesis
  proof
    assume "Math_min n (Fin 200) = NegInf"
    then show ?thesis by (simp add: searchLoop_NegInf result_cap_def)
  next
    assume "\<exists>x. Math_min n (Fin 200) = Fin x \<and> x \<le> 200"
    then obtain x where x: "Math_min n (Fin 200) = Fin x" "x \<le> 200" by blast
    have "\<lceil>x\<rceil> \<le> 200" using x(2) by (simp add: ceiling_le_iff)
    then have c: "nat \<lceil>x\<rceil> \<le> 200" by linarith
    have "length (fst (searchLoop h (Fin x) q fs [] app)) \<le> nat \<lceil>x\<rceil>"
      by (rule searchLoop_bound) simp
    with x c show ?thesis by (simp add: result_cap_def)
  qed
qed


lemma search_value:
  assumes "query_param h params \<noteq> []" and "Number_js h (limit_param params) = Inr n"
  shows "rpcSearchQuery h params a v
     = (Inr (Found \<lparr>query = query_param h params,
                     results = fst (searchLoop h (Math_min n (Fin 200)) (query_param h params)
                                     (getMarkdownFiles a) [] a)\<rparr>),
        snd (searchLoop h (Math_min n (Fin 200)) (query_param h params) (getMarkdownFiles a) [] a))"
  using assms
  by (simp add: rpcSearchQuery_def query_param_def limit_param_def Let_def split: prod.splits)

lemma result_cap_whole: "result_cap (Math_min (Fin (of_nat m)) (Fin 200)) = min m 200"
proof -
  have "min (rat_of_nat m) 200 = rat_of_nat (min m 200)" by (simp add: min_def)
  then show ?thesis by (simp add: result_cap_def del: of_nat_min)
qed

lemma default_limit:
  "member (asRecord params) ''limit'' = None \<Longrightarrow> Number_js h (limit_param params) = Inr (Fin (of_nat 50))"
  by (simp add: limit_param_def nullish_def Number_js_def)

text \<open>
  Claim C3, as amended.  For every query that is not blank (a string that is not empty
  once the platform's \<open>trim\<close> has taken the white space off its ends) and every limit value
  that converts to a number \<open>n\<close> other than \<open>NaN\<close> (\<open>50\<close> when the limit is absent),
  \<open>search.query\<close> returns at most \<open>min(n, 200)\<close> results, rounded up to a whole number and
  never below zero: for a whole \<open>n >= 0\<close> that is \<open>min(n, 200)\<close>, and always at most 200.
  The scan stops as soon as that many matches have been collected: the files read are the
  first \<open>k\<close> markdown files, in order, each read while the matches collected from the files
  before it were still fewer than the limit; the results are exactly the matches of those
  \<open>k\<close> files, a file matching when its content folded to lower case by the platform
  contains the query so folded; and when files are left unread the limit has been reached.
\<close>

theorem search_capped_and_short_circuit:
  assumes "query_param h params \<noteq> []" and "Number_js h (limit_param params) = Inr n" and "n \<noteq> NaN"
  shows "\<exists>r a' k. rpcSearchQuery h params a v = (Inr (Found r), a')
     \<and> length (results r) \<le> result_cap (Math_min n (Fin 200))
     \<and> result_cap (Math_min n (Fin 200)) \<le> 200
     \<and> (\<forall>m. n = Fin (of_nat m) \<longrightarrow> length (results r) \<le> min m 200)
     \<and> (member (asRecord params) ''limit'' = None \<longrightarrow> length (results r) \<le> 50)
     \<and> k \<le> length (getMarkdownFiles a)
     \<and> results r = hits_in h (query_param h params) (take k (getMarkdownFiles a))
     \<and> journal a' = journal a @ map (\<lambda>f. CachedRead (path f)) (take k (getMarkdownFiles a))
     \<and> (k < length (getMarkdownFiles a) \<longrightarrow>
          js_ge (Fin (of_nat (length (results r)))) (Math_min n (Fin 200)))
     \<and> (\<forall>j < k. \<not> js_ge (Fin (of_nat (length (hits_in h (query_param h params)
                                                   (take j (getMarkdownFiles a))))))
                          (Math_min n (Fin 200)))"
proof -
  let ?lim = "Math_min n (Fin 200)"
  let ?q = "query_param h params"
  let ?fs = "getMarkdownFiles a"
  from searchLoop_scan [where fs = ?fs and h = h and limit = ?lim and q = ?q and res = "[]"
      and app = a]
  obtain k where k: "k \<le> length ?fs"
    "searchLoop h ?lim ?q ?fs [] a
       = ([] @ hits_in h ?q (take k ?fs),
          a\<lparr>journal := journal a @ map (\<lambda>f. CachedRead (path f)) (take k ?fs)\<rparr>)"
    "k < length ?fs \<longrightarrow> js_ge (Fin (of_nat (length ([] @ hits_in h ?q (take k ?fs))))) ?lim"
    "\<forall>j < k. \<not> js_ge (Fin (of_nat (length ([] @ hits_in h ?q (take j ?fs))))) ?lim"
    by blast
  let ?r = "\<lparr>query = ?q, results = hits_in h ?q (take k ?fs)\<rparr>"
  let ?a = "a\<lparr>journal := journal a @ map (\<lambda>f. CachedRead (path f)) (take k ?fs)\<rparr>"
  have val: "rpcSearchQuery h params a v = (Inr (Found ?r), ?a)"
    using search_value [OF assms(1,2), of a v] k(2) by simp
  have cap: "length (results ?r) \<le> result_cap ?lim" "result_cap ?lim \<le> 200"
    using searchLoop_cap [OF assms(3), where h = h and q = ?q and fs = ?fs and app = a] k(2)
    by simp_all
  have whole: "\<forall>m. n = Fin (of_nat m) \<longrightarrow> length (results ?r) \<le> min m 200"
    using cap(1) result_cap_whole by auto
  have dflt: "member (asRecord params) ''limit'' = None \<longrightarrow> length (results ?r) \<le> 50"
  proof
    assume "member (asRecord params) ''limit'' = None"
    from default_limit [OF this, of h] assms(2) have "n = Fin (of_nat 50)" by simp
    with whole show "length (results ?r) \<le> 50" by fastforce
  qed
  have j: "journal ?a = journal a @ map (\<lambda>f. CachedRead (path f)) (take k ?fs)" by simp
  have stop: "k < length ?fs \<longrightarrow> js_ge (Fin (of_nat (length (results ?r)))) ?lim"
    using k(3) by simp
  have before: "\<forall>j < k. \<not> js_ge (Fin (of_nat (length (hits_in h ?q (take j ?fs))))) ?lim"
    using k(4) by simp
  have res: "results ?r = hits_in h ?q (take k ?fs)" by simp
  show ?thesis
    apply (rule exI [of _ ?r], rule exI [of _ ?a], rule exI [of _ k])
    using val cap whole dflt k(1) res j stop before apply blast
    done
qed

lemma getMarkdownFiles_foo: "getMarkdownFiles (foo_app n) = map foo_note [0..<n]"
  by (simp add: getMarkdownFiles_def foo_app_def List.map_filter_def foo_note_def comp_def)

lemma hit_foo:
  "hit sample_host ''foo'' (foo_note i)
     = Some \<lparr>result_path = decimal i @ ''.md'', result_title = decimal i, snippet = ''a Foo''\<rparr>"
  by (simp add: hit_def searchHit_def foo_note_def sample_host_def sample_lower_def js_slice_def
      sample_space_def Let_def)

lemma hits_foo_length: "length (hits_in sample_host ''foo'' (map foo_note xs)) = length xs"
  by (induction xs) (simp_all add: hits_in_Nil hits_in_Cons hit_foo)

lemma query_foo: "query_param sample_host (Some (JObj ((''q'', JStr ''foo'') # rest))) = ''foo''"
  by (simp add: query_param_def asRecord_def isRecord_def member_def stringOr_def trim_def
      trimEnd_def sample_host_def sample_space_def)


lemma limit_samples:
  "Number_js sample_host (limit_param (Some (JObj [(''q'', JStr ''foo''), (''limit'', JNum (Fin 2))]))) = Inr (Fin (of_nat 2))"
  "Number_js sample_host (limit_param (Some (JObj [(''q'', JStr ''foo''), (''limit'', JNum (Fin (5 / 2)))]))) = Inr (Fin (5 / 2))"
  "Number_js sample_host (limit_param (Some (JObj [(''q'', JStr ''foo''), (''limit'', JStr ''abc'')]))) = Inr NaN"
  by (simp_all add: limit_param_def asRecord_def isRecord_def member_def nullish_def Number_js_def
      sample_host_def)

theorem search_capped_and_short_circuit_witness:
  "query_param sample_host (Some (JObj [(''q'', JStr '' FOO ''), (''limit'', JNum (Fin 2))])) = ''FOO''
   \<and> Number_js sample_host (limit_param (Some (JObj [(''q'', JStr '' FOO ''), (''limit'', JNum (Fin 2))])))
       = Inr (Fin 2)
   \<and> result_count (fst (rpcSearchQuery sample_host
         (Some (JObj [(''q'', JStr '' FOO ''), (''limit'', JNum (Fin 2))])) (foo_app 3) 0)) \<le> 2
   \<and> rpcSearchQuery sample_host
         (Some (JObj [(''q'', JStr '' FOO ''), (''limit'', JNum (Fin 2))])) (foo_app 3) 0
       = (Inr (Found \<lparr>query = ''FOO'',
                       results = [\<lparr>result_path = ''0.md'', result_title = ''0'', snippet = ''a Foo''\<rparr>,
                                  \<lparr>result_path = ''1.md'', result_title = ''1'', snippet = ''a Foo''\<rparr>]\<rparr>),
          (foo_app 3)\<lparr>journal := [CachedRead ''0.md'', CachedRead ''1.md'']\<rparr>)
   \<and> rpcSearchQuery sample_host (Some (JObj [(''q'', JStr [CHR 0xA0])])) (foo_app 3) 0
       = (Inl (Error ''Missing params.q''), foo_app 3)"
proof -
  let ?P = "Some (JObj [(''q'', JStr '' FOO ''), (''limit'', JNum (Fin 2))])"
  have q: "query_param sample_host ?P = ''FOO''" by code_simp
  then have q0: "query_param sample_host ?P \<noteq> []" by simp
  have l: "Number_js sample_host (limit_param ?P) = Inr (Fin (of_nat 2))"
    by (simp add: limit_param_def asRecord_def isRecord_def member_def nullish_def Number_js_def
        sample_host_def)
  have n: "Fin (of_nat 2) \<noteq> NaN" by simp
  from search_capped_and_short_circuit [OF q0 l n, of "foo_app 3" 0]
  obtain r a' where "rpcSearchQuery sample_host ?P (foo_app 3) 0 = (Inr (Found r), a')"
    "\<forall>m. Fin (of_nat 2) = Fin (rat_of_nat m) \<longrightarrow> length (results r) \<le> min m 200"
    by blast
  then have c: "result_count (fst (rpcSearchQuery sample_host ?P (foo_app 3) 0)) \<le> 2"
    by (simp add: result_count_def)
  have v: "rpcSearchQuery sample_host ?P (foo_app 3) 0
       = (Inr (Found \<lparr>query = ''FOO'',
                       results = [\<lparr>result_path = ''0.md'', result_title = ''0'', snippet = ''a Foo''\<rparr>,
                                  \<lparr>result_path = ''1.md'', result_title = ''1'', snippet = ''a Foo''\<rparr>]\<rparr>),
          (foo_app 3)\<lparr>journal := [CachedRead ''0.md'', CachedRead ''1.md'']\<rparr>)"
    by code_simp
  have b: "rpcSearchQuery sample_host (Some (JObj [(''q'', JStr [CHR 0xA0])])) (foo_app 3) 0
       = (Inl (Error ''Missing params.q''), foo_app 3)"
    by code_simp
  from q l c v b show ?thesis by simp
qed

lemma upt3: "[0..<3] = [0, 1, 2]"
  by (simp add: upt_rec)

text \<open>
  The claim as stated ("at most \<open>min(limit, 200)\<close> results for every limit value") is
  false.  With the limit \<open>2.5\<close> and three matching notes the search returns 3 results, and
  \<open>3 <= min(2.5, 200)\<close> does not hold.  With a limit that converts to \<open>NaN\<close> (here the
  string \<open>"abc"\<close>) the loop's test \<open>results.length >= limit\<close> is never true, and 201
  matching notes give 201 results.
\<close>

theorem search_exceeds_stated_bound:
  "result_count (fst (rpcSearchQuery sample_host
       (Some (JObj [(''q'', JStr ''foo''), (''limit'', JNum (Fin (5 / 2)))])) (foo_app 3) 0)) = 3
   \<and> \<not> js_le (Fin 3) (Math_min (Fin (5 / 2)) (Fin 200))
   \<and> result_count (fst (rpcSearchQuery sample_host
       (Some (JObj [(''q'', JStr ''foo''), (''limit'', JStr ''abc'')])) (foo_app 201) 0)) = 201"
proof -
  have q: "\<And>rest. query_param sample_host (Some (JObj ((''q'', JStr ''foo'') # rest))) \<noteq> []"
    by (simp add: query_foo)
  have a: "result_count (fst (rpcSearchQuery sample_host
       (Some (JObj [(''q'', JStr ''foo''), (''limit'', JNum (Fin (5 / 2)))])) (foo_app 3) 0)) = 3"
    by (simp add: search_value [OF q limit_samples(2)] result_count_def getMarkdownFiles_foo upt3
        searchLoop_Cons hits_in_Cons hits_in_Nil hit_foo query_foo del: searchLoop.simps(2))
  have b: "\<not> js_le (Fin 3) (Math_min (Fin (5 / 2)) (Fin 200))"
    by (simp add: js_le_def)
  have c: "result_count (fst (rpcSearchQuery sample_host
       (Some (JObj [(''q'', JStr ''foo''), (''limit'', JStr ''abc'')])) (foo_app 201) 0)) = 201"
    by (simp add: search_value [OF q limit_samples(3)] result_count_def getMarkdownFiles_foo
        searchLoop_NaN hits_foo_length query_foo del: searchLoop.simps)
  from a b c show ?thesis by blast
qed


subsection \<open>Creating a note\<close>

lemma lookup_with_folders:
  "getAbstractFileByPath (with_folders a cs) p
     = (case getAbstractFileByPath a p of
          Some x \<Rightarrow> Some x
        | None \<Rightarrow> (if p \<in> set cs then Some (AFolder p) else None))"
proof -
  have m: "map_of (map (\<lambda>d. (d, AFolder d)) cs) p = (if p \<in> set cs then Some (AFolder p) else None)"
    by (induction cs) auto
  show ?thesis
    by (simp add: getAbstractFileByPath_def with_folders_def map_add_def m split: option.splits)
qed

lemma with_folders_Nil: "with_folders a [] = a"
  by (simp add: with_folders_def)

lemma with_folders_Cons: "with_folders (with_folders a [c]) cs = with_folders a (c # cs)"
  by (simp add: with_folders_def)

lemma createFolder_missing:
  "missing a d \<Longrightarrow> createFolder d a = (Inr (), with_folders a [d])"
  by (simp add: createFolder_def missing_def getAbstractFileByPath_def with_folders_def)

lemma ensureLoop_Cons:
  "ensureLoop current (segment # segments) a =
     (if missing a (join_path current segment)
      then ensureLoop (join_path current segment) segments (with_folders a [join_path current segment])
      else if blocked a (join_path current segment)
      then (Inl (Error (''Path segment is not a folder: '' @ join_path current segment)), a)
      else ensureLoop (join_path current segment) segments a)"
  by (auto simp: Let_def missing_def blocked_def is_folder_def createFolder_missing
      split: option.splits TAbstractFile.splits)

declare ensureLoop.simps(2) [simp del]

lemma status_after_create:
  "d \<noteq> c \<Longrightarrow> missing (with_folders a [c]) d = missing a d"
  "d \<noteq> c \<Longrightarrow> blocked (with_folders a [c]) d = blocked a d"
  by (simp_all add: missing_def blocked_def lookup_with_folders split: option.splits)

lemma join_path_longer: "seg \<noteq> [] \<Longrightarrow> length current < length (join_path current seg)"
  by (simp add: join_path_def)

lemma prefixes_longer:
  "\<forall>s \<in> set segs. s \<noteq> [] \<Longrightarrow> d \<in> set (path_prefixes current segs) \<Longrightarrow> length current < length d"
proof (induction segs arbitrary: current)
  case Nil
  then show ?case by simp
next
  case (Cons seg segs)
  have c: "length current < length (join_path current seg)"
    using Cons.prems(1) by (simp add: join_path_longer)
  from Cons.prems(2) have "d = join_path current seg \<or> d \<in> set (path_prefixes (join_path current seg) segs)"
    by simp
  then show ?case
  proof
    assume "d = join_path current seg" with c show ?thesis by simp
  next
    assume "d \<in> set (path_prefixes (join_path current seg) segs)"
    from Cons.IH [OF _ this] Cons.prems(1) have "length (join_path current seg) < length d" by simp
    with c show ?thesis by simp
  qed
qed

lemma prefixes_distinct:
  "\<forall>s \<in> set segs. s \<noteq> [] \<Longrightarrow> distinct (path_prefixes current segs)"
proof (induction segs arbitrary: current)
  case Nil
  then show ?case by simp
next
  case (Cons seg segs)
  have "join_path current seg \<notin> set (path_prefixes (join_path current seg) segs)"
    using prefixes_longer [of segs "join_path current seg" "join_path current seg"] Cons.prems by auto
  moreover have "distinct (path_prefixes (join_path current seg) segs)" using Cons by simp
  ultimately show ?case by simp
qed

lemma ensureLoop_ok:
  assumes "distinct (path_prefixes current segs)"
    and "\<forall>d \<in> set (path_prefixes current segs). \<not> blocked a d"
  shows "ensureLoop current segs a
           = (Inr (), with_folders a (filter (missing a) (path_prefixes current segs)))"
  using assms
proof (induction segs arbitrary: current a)
  case Nil
  then show ?case by (simp add: with_folders_Nil)
next
  case (Cons seg segs)
  let ?cur = "join_path current seg"
  let ?ds = "path_prefixes ?cur segs"
  from Cons.prems(1) have d: "distinct ?ds" and n: "?cur \<notin> set ?ds" by simp_all
  from Cons.prems(2) have nb: "\<not> blocked a ?cur" and nbs: "\<forall>d \<in> set ?ds. \<not> blocked a d"
    by simp_all
  show ?case
  proof (cases "missing a ?cur")
    case True
    let ?a1 = "with_folders a [?cur]"
    have same: "\<forall>d \<in> set ?ds. missing ?a1 d = missing a d \<and> blocked ?a1 d = blocked a d"
    proof
      fix d assume "d \<in> set ?ds"
      with n have "d \<noteq> ?cur" by blast
      then show "missing ?a1 d = missing a d \<and> blocked ?a1 d = blocked a d"
        by (simp add: status_after_create)
    qed
    then have nb1: "\<forall>d \<in> set ?ds. \<not> blocked ?a1 d" using nbs by simp
    have f: "filter (missing ?a1) ?ds = filter (missing a) ?ds"
      using same by (intro filter_cong) simp_all
    have "ensureLoop current (seg # segs) a = ensureLoop ?cur segs ?a1"
      using True by (simp only: ensureLoop_Cons if_True)
    also have "\<dots> = (Inr (), with_folders ?a1 (filter (missing ?a1) ?ds))"
      by (rule Cons.IH [OF d nb1])
    also have "\<dots> = (Inr (), with_folders a (?cur # filter (missing a) ?ds))"
      by (simp only: f with_folders_Cons)
    also have "?cur # filter (missing a) ?ds = filter (missing a) (path_prefixes current (seg # segs))"
      using True by simp
    finally show ?thesis .
  next
    case False
    have "ensureLoop current (seg # segs) a = ensureLoop ?cur segs a"
      using False nb by (simp only: ensureLoop_Cons if_False)
    also have "\<dots> = (Inr (), with_folders a (filter (missing a) ?ds))"
      by (rule Cons.IH [OF d nbs])
    also have "filter (missing a) ?ds = filter (missing a) (path_prefixes current (seg # segs))"
      using False by simp
    finally show ?thesis .
  qed
qed

lemma blocked_not_missing: "blocked a d \<Longrightarrow> \<not> missing a d"
  by (simp add: blocked_def missing_def split: option.splits)

lemma ensureLoop_blocked:
  assumes "\<exists>d \<in> set (path_prefixes current segs). blocked a d"
  shows "\<exists>e cs. ensureLoop current segs a = (Inl e, with_folders a cs)
                 \<and> set cs \<subseteq> set (path_prefixes current segs)"
  using assms
proof (induction segs arbitrary: current a)
  case Nil
  then show ?case by simp
next
  case (Cons seg segs)
  let ?cur = "join_path current seg"
  let ?ds = "path_prefixes ?cur segs"
  have ps: "path_prefixes current (seg # segs) = ?cur # ?ds" by simp
  show ?case
  proof (cases "missing a ?cur")
    case True
    let ?a1 = "with_folders a [?cur]"
    from Cons.prems obtain d where d: "d \<in> set (?cur # ?ds)" "blocked a d" by auto
    with True blocked_not_missing have "d \<noteq> ?cur" by blast
    with d have "d \<in> set ?ds" "blocked ?a1 d" by (simp_all add: status_after_create)
    then have "\<exists>d \<in> set ?ds. blocked ?a1 d" by blast
    from Cons.IH [OF this] obtain e cs where
      r: "ensureLoop ?cur segs ?a1 = (Inl e, with_folders ?a1 cs)" "set cs \<subseteq> set ?ds" by blast
    have "ensureLoop current (seg # segs) a = ensureLoop ?cur segs ?a1"
      using True by (simp only: ensureLoop_Cons if_True)
    with r(1) have "ensureLoop current (seg # segs) a = (Inl e, with_folders a (?cur # cs))"
      by (simp only: with_folders_Cons)
    moreover have "set (?cur # cs) \<subseteq> set (path_prefixes current (seg # segs))"
      using r(2) by auto
    ultimately show ?thesis by blast
  next
    case False
    show ?thesis
    proof (cases "blocked a ?cur")
      case True
      have "ensureLoop current (seg # segs) a
              = (Inl (Error (''Path segment is not a folder: '' @ ?cur)), with_folders a [])"
        using False True by (simp only: ensureLoop_Cons if_False if_True with_folders_Nil)
      moreover have "set [] \<subseteq> set (path_prefixes current (seg # segs))" by simp
      ultimately show ?thesis by blast
    next
      case nb: False
      from Cons.prems nb have "\<exists>d \<in> set ?ds. blocked a d" by auto
      from Cons.IH [OF this] obtain e cs where
        r: "ensureLoop ?cur segs a = (Inl e, with_folders a cs)" "set cs \<subseteq> set ?ds" by blast
      have "ensureLoop current (seg # segs) a = ensureLoop ?cur segs a"
        using False nb by (simp only: ensureLoop_Cons if_False)
      with r(1) have "ensureLoop current (seg # segs) a = (Inl e, with_folders a cs)" by simp
      moreover have "set cs \<subseteq> set (path_prefixes current (seg # segs))"
        using r(2) by auto
      ultimately show ?thesis by blast
    qed
  qed
qed


lemma prefixes_length:
  "d \<in> set (path_prefixes current segs) \<Longrightarrow>
   length d + (if current = [] then 1 else 0) \<le> length current + sum_list (map (\<lambda>s. Suc (length s)) segs)"
proof (induction segs arbitrary: current)
  case Nil
  then show ?case by simp
next
  case (Cons seg segs)
  from Cons.prems have "d = join_path current seg \<or> d \<in> set (path_prefixes (join_path current seg) segs)"
    by simp
  then show ?case
  proof
    assume "d = join_path current seg"
    then show ?thesis by (simp add: join_path_def)
  next
    assume "d \<in> set (path_prefixes (join_path current seg) segs)"
    from Cons.IH [OF this]
    have "length d \<le> length (join_path current seg) + sum_list (map (\<lambda>s. Suc (length s)) segs)"
      by (simp split: if_splits)
    moreover have "length (join_path current seg) + (if current = [] then 1 else 0)
                     \<le> length current + Suc (length seg)"
      by (simp add: join_path_def)
    ultimately show ?thesis by (simp split: if_splits)
  qed
qed

lemma split_total_length: "sum_list (map (\<lambda>s. Suc (length s)) (js_split sep t)) = Suc (length t)"
proof (induction t)
  case Nil
  show ?case by simp
next
  case (Cons c cs)
  then show ?case by (cases "js_split sep cs") (auto split: if_splits)
qed

lemma filter_total_length:
  "sum_list (map (\<lambda>s. Suc (length s)) (filter P ws)) \<le> sum_list (map (\<lambda>s. Suc (length s)) ws)"
  by (induction ws) auto

lemma intermediate_length:
  assumes "d \<in> set (intermediate_folders pth)"
  shows "length d \<le> length (folder_of pth)"
proof -
  let ?segs = "filter (\<lambda>s. s \<noteq> []) (js_split CHR ''/'' (folder_of pth))"
  from assms have "d \<in> set (path_prefixes [] ?segs)" by (simp add: intermediate_folders_def)
  from prefixes_length [OF this]
  have "length d + 1 \<le> sum_list (map (\<lambda>s. Suc (length s)) ?segs)" by simp
  also have "\<dots> \<le> sum_list (map (\<lambda>s. Suc (length s)) (js_split CHR ''/'' (folder_of pth)))"
    by (rule filter_total_length)
  also have "\<dots> = Suc (length (folder_of pth))" by (rule split_total_length)
  finally show ?thesis by simp
qed

lemma js_join_snoc:
  "js_join sep (ws @ [w]) = (if ws = [] then w else js_join sep ws @ sep @ w)"
proof (induction ws)
  case Nil
  show ?case by simp
next
  case (Cons v vs)
  then show ?case by (cases vs) simp_all
qed

lemma folder_shorter: "folder_of pth = [] \<or> length (folder_of pth) < length pth"
proof (cases "butlast (js_split CHR ''/'' pth) = []")
  case True
  then show ?thesis by (simp add: folder_of_def)
next
  case False
  let ?ws = "js_split CHR ''/'' pth"
  have "?ws \<noteq> []" by (rule js_split_nonempty)
  then have ws: "butlast ?ws @ [last ?ws] = ?ws" by simp
  have "js_join ''/'' (butlast ?ws @ [last ?ws]) = js_join ''/'' (butlast ?ws) @ ''/'' @ last ?ws"
    using False by (simp only: js_join_snoc if_False)
  then have "js_join ''/'' ?ws = folder_of pth @ ''/'' @ last ?ws"
    by (simp only: ws folder_of_def)
  then have "pth = folder_of pth @ ''/'' @ last ?ws"
    by (simp only: js_join_split)
  then have "length pth = length (folder_of pth @ ''/'' @ last ?ws)" by simp
  then show ?thesis by simp
qed

lemma intermediate_empty: "folder_of pth = [] \<Longrightarrow> intermediate_folders pth = []"
  by (simp add: intermediate_folders_def)

lemma target_not_intermediate: "pth \<notin> set (intermediate_folders pth)"
proof
  assume a: "pth \<in> set (intermediate_folders pth)"
  from folder_shorter [of pth] show False
  proof
    assume "folder_of pth = []"
    with a show False by (simp add: intermediate_empty)
  next
    assume "length (folder_of pth) < length pth"
    with intermediate_length [OF a] show False by simp
  qed
qed

lemma intermediate_distinct: "distinct (intermediate_folders pth)"
  by (simp add: intermediate_folders_def prefixes_distinct)


lemma ensure_or_skip:
  "(if folder_of pth \<noteq> [] then ensureFolderPath a (folder_of pth) else (Inr (), a))
     = ensureLoop [] (filter (\<lambda>s. s \<noteq> []) (js_split CHR ''/'' (folder_of pth))) a"
  by (simp add: ensureFolderPath_def)

lemma noteCreate_value:
  assumes "valid_create h params"
  shows "rpcNoteCreate h params a v =
     (case getAbstractFileByPath a (create_path h params) of
        Some (AFile f) \<Rightarrow> (Inl (Error (''File already exists: '' @ create_path h params)), a)
      | Some (AOther x) \<Rightarrow>
          (Inl (Error (''Path already exists and is not a markdown file: '' @ create_path h params)), a)
      | _ \<Rightarrow>
          (case ensureLoop [] (filter (\<lambda>s. s \<noteq> []) (js_split CHR ''/'' (folder_of (create_path h params)))) a of
             (Inl e, a1) \<Rightarrow> (Inl e, a1)
           | (Inr u, a1) \<Rightarrow>
               (case create (create_path h params)
                       (noteContent h (heading_param h params) (body_param params)) a1 of
                  (Inl e, a2) \<Rightarrow> (Inl e, a2)
                | (Inr file, a2) \<Rightarrow>
                    (Inr (Created \<lparr>created_path = path file, created_title = basename file,
                                    created_mtime = mtime_of file, created = True\<rparr>), a2))))"
proof -
  have e: "\<And>pth. (if js_join ''/'' (butlast (js_split CHR ''/'' pth)) \<noteq> []
               then ensureFolderPath a (js_join ''/'' (butlast (js_split CHR ''/'' pth)))
               else (Inr (), a))
          = ensureLoop [] (filter (\<lambda>s. s \<noteq> []) (js_split CHR ''/'' (folder_of pth))) a"
    by (simp add: ensureFolderPath_def folder_of_def)
  show ?thesis
    using assms
    unfolding valid_create_def create_path_def heading_param_def body_param_def
    by (simp add: rpcNoteCreate_def Let_def e del: ensureLoop.simps
        split: option.splits TAbstractFile.splits)
qed

lemma noteCreate_exists:
  assumes "valid_create h params" and "getAbstractFileByPath a (create_path h params) = Some (AFile f)"
  shows "rpcNoteCreate h params a v = (Inl (Error (''File already exists: '' @ create_path h params)), a)"
  using assms(2) by (simp add: noteCreate_value [OF assms(1)])

lemma create_missing:
  assumes "missing a p"
  shows "create p t a
     = (Inr \<lparr>path = p, basename = basename_of p, extension = extension_of p,
             stat = Some (clock a), content = t\<rparr>,
        a\<lparr>vault := vault a @ [(p, AFile \<lparr>path = p, basename = basename_of p,
                                         extension = extension_of p, stat = Some (clock a),
                                         content = t\<rparr>)],
          journal := journal a @ [Create p t]\<rparr>)"
  using assms by (simp add: create_def missing_def getAbstractFileByPath_def Let_def)

lemma lookup_after_create:
  "getAbstractFileByPath (a\<lparr>vault := vault a @ [(p, x)], journal := j\<rparr>) d
     = (case getAbstractFileByPath a d of Some y \<Rightarrow> Some y | None \<Rightarrow> (if d = p then Some x else None))"
  by (simp add: getAbstractFileByPath_def map_add_def split: option.splits)

lemma with_folders_frame:
  "clock (with_folders a cs) = clock a" "journal (with_folders a cs) = journal a @ map CreateFolder cs"
  by (simp_all add: with_folders_def)


lemma noteCreate_creates:
  assumes v: "valid_create h params"
    and m: "missing a (create_path h params)"
    and nb: "\<forall>d \<in> set (intermediate_folders (create_path h params)). \<not> blocked a d"
  shows "\<exists>a' f. rpcNoteCreate h params a v
            = (Inr (Created \<lparr>created_path = create_path h params,
                              created_title = basename_of (create_path h params),
                              created_mtime = clock a, created = True\<rparr>), a')
          \<and> journal a' = journal a
                @ map CreateFolder (filter (missing a) (intermediate_folders (create_path h params)))
                @ [Create (create_path h params) (noteContent h (heading_param h params) (body_param params))]
          \<and> (\<forall>d \<in> set (intermediate_folders (create_path h params)).
                \<exists>x. getAbstractFileByPath a' d = Some (AFolder x))
          \<and> getAbstractFileByPath a' (create_path h params) = Some (AFile f)
          \<and> content f = ''# '' @ heading_param h params @ [CHR 0x0A, CHR 0x0A]
                           @ trimEnd h (body_param params) @ [CHR 0x0A]
          \<and> (\<forall>v'. rpcNoteCreate h params a' v'
                 = (Inl (Error (''File already exists: '' @ create_path h params)), a'))"
proof -
  let ?pth = "create_path h params"
  let ?ds = "intermediate_folders ?pth"
  let ?cs = "filter (missing a) ?ds"
  let ?t = "noteContent h (heading_param h params) (body_param params)"
  let ?a1 = "with_folders a ?cs"
  let ?f = "\<lparr>path = ?pth, basename = basename_of ?pth, extension = extension_of ?pth,
             stat = Some (clock ?a1), content = ?t\<rparr>"
  let ?a2 = "?a1\<lparr>vault := vault ?a1 @ [(?pth, AFile ?f)], journal := journal ?a1 @ [Create ?pth ?t]\<rparr>"
  have ens: "ensureLoop [] (filter (\<lambda>s. s \<noteq> []) (js_split CHR ''/'' (folder_of ?pth))) a = (Inr (), ?a1)"
    using ensureLoop_ok [of "[]" "filter (\<lambda>s. s \<noteq> []) (js_split CHR ''/'' (folder_of ?pth))" a]
      intermediate_distinct [of ?pth] nb
    by (simp add: intermediate_folders_def)
  have notin: "?pth \<notin> set ?cs" using target_not_intermediate [of ?pth] by simp
  have m0: "getAbstractFileByPath a ?pth = None" using m by (simp add: missing_def)
  have m1: "missing ?a1 ?pth"
    using m0 notin by (simp add: missing_def lookup_with_folders)
  have cr: "create ?pth ?t ?a1 = (Inr ?f, ?a2)"
    by (rule create_missing [OF m1])
  have val: "rpcNoteCreate h params a v
            = (Inr (Created \<lparr>created_path = ?pth, created_title = basename_of ?pth,
                              created_mtime = clock a, created = True\<rparr>), ?a2)"
    by (simp add: noteCreate_value [OF v] m0 ens cr mtime_of_def with_folders_frame)
  have j: "journal ?a2 = journal a @ map CreateFolder ?cs @ [Create ?pth ?t]"
    by (simp add: with_folders_frame)
  have folders: "\<forall>d \<in> set ?ds. \<exists>x. getAbstractFileByPath ?a2 d = Some (AFolder x)"
  proof
    fix d assume d: "d \<in> set ?ds"
    with nb have b: "\<not> blocked a d" by blast
    show "\<exists>x. getAbstractFileByPath ?a2 d = Some (AFolder x)"
    proof (cases "getAbstractFileByPath a d")
      case None
      then have "d \<in> set ?cs" using d by (simp add: missing_def)
      with None have "getAbstractFileByPath ?a1 d = Some (AFolder d)"
        by (simp add: lookup_with_folders)
      then show ?thesis by (simp add: lookup_after_create)
    next
      case (Some y)
      with b obtain x where "y = AFolder x"
        by (cases y) (simp_all add: blocked_def is_folder_def)
      with Some have "getAbstractFileByPath ?a1 d = Some (AFolder x)"
        by (simp add: lookup_with_folders)
      then show ?thesis by (simp add: lookup_after_create)
    qed
  qed
  have fl: "getAbstractFileByPath ?a2 ?pth = Some (AFile ?f)"
    using m1 by (simp add: lookup_after_create missing_def)
  have c: "content ?f = ''# '' @ heading_param h params @ [CHR 0x0A, CHR 0x0A]
                           @ trimEnd h (body_param params) @ [CHR 0x0A]"
    by (simp add: noteContent_def)
  have again: "\<forall>v'. rpcNoteCreate h params ?a2 v'
                 = (Inl (Error (''File already exists: '' @ ?pth)), ?a2)"
    using noteCreate_exists [OF v fl] by blast
  show ?thesis
    apply (rule exI [of _ ?a2], rule exI [of _ ?f])
    using val j folders fl c again apply blast
    done
qed

lemma noteCreate_blocked:
  assumes v: "valid_create h params"
    and b: "\<exists>d \<in> set (intermediate_folders (create_path h params)). blocked a d"
  shows "\<exists>e a'. rpcNoteCreate h params a v = (Inl e, a')
          \<and> getAbstractFileByPath a' (create_path h params)
              = getAbstractFileByPath a (create_path h params)
          \<and> (\<forall>p t. Create p t \<in> set (journal a') \<longrightarrow> Create p t \<in> set (journal a))"
proof -
  let ?pth = "create_path h params"
  let ?segs = "filter (\<lambda>s. s \<noteq> []) (js_split CHR ''/'' (folder_of ?pth))"
  from b have "\<exists>d \<in> set (path_prefixes [] ?segs). blocked a d"
    by (simp add: intermediate_folders_def)
  from ensureLoop_blocked [OF this] obtain e cs where
    r: "ensureLoop [] ?segs a = (Inl e, with_folders a cs)" "set cs \<subseteq> set (path_prefixes [] ?segs)"
    by blast
  from r(2) target_not_intermediate [of ?pth] have notin: "?pth \<notin> set cs"
    by (auto simp: intermediate_folders_def)
  have same: "getAbstractFileByPath (with_folders a cs) ?pth = getAbstractFileByPath a ?pth"
    using notin by (simp add: lookup_with_folders split: option.splits)
  have jr: "\<forall>p t. Create p t \<in> set (journal (with_folders a cs)) \<longrightarrow> Create p t \<in> set (journal a)"
    by (auto simp: with_folders_frame)
  show ?thesis
  proof (cases "getAbstractFileByPath a ?pth")
    case None
    then have "rpcNoteCreate h params a v = (Inl e, with_folders a cs)"
      by (simp add: noteCreate_value [OF v] r(1))
    with same jr show ?thesis by blast
  next
    case (Some y)
    show ?thesis
    proof (cases y)
      case (AFile f)
      with Some have "rpcNoteCreate h params a v
           = (Inl (Error (''File already exists: '' @ ?pth)), a)"
        by (simp add: noteCreate_value [OF v])
      then show ?thesis by blast
    next
      case (AFolder x)
      with Some have "rpcNoteCreate h params a v = (Inl e, with_folders a cs)"
        by (simp add: noteCreate_value [OF v] r(1))
      with same jr show ?thesis by blast
    next
      case (AOther x)
      with Some have "rpcNoteCreate h params a v
           = (Inl (Error (''Path already exists and is not a markdown file: '' @ ?pth)), a)"
        by (simp add: noteCreate_value [OF v])
      then show ?thesis by blast
    qed
  qed
qed

lemma ensure_frame:
  "\<exists>r cs. ensureLoop [] (filter (\<lambda>s. s \<noteq> []) (js_split CHR ''/'' (folder_of pth))) a
             = (r, with_folders a cs)
         \<and> set cs \<subseteq> set (intermediate_folders pth)"
proof (cases "\<exists>d \<in> set (intermediate_folders pth). blocked a d")
  case True
  then have "\<exists>d \<in> set (path_prefixes [] (filter (\<lambda>s. s \<noteq> []) (js_split CHR ''/'' (folder_of pth)))).
               blocked a d"
    by (simp add: intermediate_folders_def)
  from ensureLoop_blocked [OF this] show ?thesis
    by (auto simp: intermediate_folders_def)
next
  case False
  then have nb: "\<forall>d \<in> set (path_prefixes [] (filter (\<lambda>s. s \<noteq> []) (js_split CHR ''/'' (folder_of pth)))).
                   \<not> blocked a d"
    by (simp add: intermediate_folders_def)
  have d: "distinct (path_prefixes [] (filter (\<lambda>s. s \<noteq> []) (js_split CHR ''/'' (folder_of pth))))"
    using intermediate_distinct [of pth] by (simp add: intermediate_folders_def)
  have s: "set (filter (missing a) (intermediate_folders pth)) \<subseteq> set (intermediate_folders pth)"
    by simp
  from ensureLoop_ok [OF d nb] s show ?thesis
    by (simp only: intermediate_folders_def) blast
qed

lemma create_occupied:
  "getAbstractFileByPath a p = Some x \<Longrightarrow> create p t a = (Inl (Error ''File already exists.''), a)"
  by (simp add: create_def getAbstractFileByPath_def)

lemma noteCreate_occupied:
  assumes v: "valid_create h params"
    and o: "\<not> missing a (create_path h params)"
  shows "\<exists>e a'. rpcNoteCreate h params a v = (Inl e, a')
          \<and> getAbstractFileByPath a' (create_path h params)
              = getAbstractFileByPath a (create_path h params)
          \<and> (\<forall>p t. Create p t \<in> set (journal a') \<longrightarrow> Create p t \<in> set (journal a))"
proof -
  let ?pth = "create_path h params"
  let ?segs = "filter (\<lambda>s. s \<noteq> []) (js_split CHR ''/'' (folder_of ?pth))"
  from o obtain y where y: "getAbstractFileByPath a ?pth = Some y"
    by (auto simp: missing_def)
  show ?thesis
  proof (cases y)
    case (AFile f)
    with y have "rpcNoteCreate h params a v = (Inl (Error (''File already exists: '' @ ?pth)), a)"
      by (simp add: noteCreate_value [OF v])
    then show ?thesis by blast
  next
    case (AOther x)
    with y have "rpcNoteCreate h params a v
         = (Inl (Error (''Path already exists and is not a markdown file: '' @ ?pth)), a)"
      by (simp add: noteCreate_value [OF v])
    then show ?thesis by blast
  next
    case (AFolder x)
    from ensure_frame [of ?pth a] obtain r cs where
      r: "ensureLoop [] ?segs a = (r, with_folders a cs)" by blast
    have same: "getAbstractFileByPath (with_folders a cs) ?pth = getAbstractFileByPath a ?pth"
      using y by (simp add: lookup_with_folders)
    have jr: "\<forall>p t. Create p t \<in> set (journal (with_folders a cs)) \<longrightarrow> Create p t \<in> set (journal a)"
      by (auto simp: with_folders_frame)
    have cr: "create ?pth (noteContent h (heading_param h params) (body_param params)) (with_folders a cs)
         = (Inl (Error ''File already exists.''), with_folders a cs)"
      using same y by (simp add: create_occupied)
    have "\<exists>e. rpcNoteCreate h params a v = (Inl e, with_folders a cs)"
      using y AFolder r cr by (cases r) (simp_all add: noteCreate_value [OF v])
    with same jr show ?thesis by blast
  qed
qed

text \<open>
  Claim C2, as amended.  For every call of \<open>note.create\<close> whose path (trimmed, then
  normalized) is not empty and ends with \<open>.md\<close> and whose heading is not blank (not empty
  once trimmed, the white space being what the platform's \<open>trim\<close> takes off): when nothing
  exists at the note's path and no intermediate path is occupied by something other than
  a folder, the call creates each missing intermediate folder, outermost first, and then
  the file, whose content is \<open># \<close> followed by the trimmed heading, a blank line, the body
  without its trailing white space, and a newline; afterwards every intermediate folder
  exists, and a second identical call fails with \<open>File already exists\<close> and changes
  nothing.  A call whose path has an intermediate segment that exists but is not a folder
  fails, creates no file, and leaves what the path names as it was; and so does a call
  whose path already names something, be it a note, a folder or anything else.
\<close>

theorem note_create_contract:
  assumes "valid_create h params"
  shows "(missing a (create_path h params)
          \<and> (\<forall>d \<in> set (intermediate_folders (create_path h params)). \<not> blocked a d) \<longrightarrow>
          (\<exists>a' f. rpcNoteCreate h params a v
                     = (Inr (Created \<lparr>created_path = create_path h params,
                                       created_title = basename_of (create_path h params),
                                       created_mtime = clock a, created = True\<rparr>), a')
             \<and> journal a' = journal a
                   @ map CreateFolder (filter (missing a) (intermediate_folders (create_path h params)))
                   @ [Create (create_path h params) (noteContent h (heading_param h params) (body_param params))]
             \<and> (\<forall>d \<in> set (intermediate_folders (create_path h params)).
                   \<exists>x. getAbstractFileByPath a' d = Some (AFolder x))
             \<and> getAbstractFileByPath a' (create_path h params) = Some (AFile f)
             \<and> content f = ''# '' @ heading_param h params @ [CHR 0x0A, CHR 0x0A]
                              @ trimEnd h (body_param params) @ [CHR 0x0A]
             \<and> (\<forall>v'. rpcNoteCreate h params a' v'
                    = (Inl (Error (''File already exists: '' @ create_path h params)), a'))))
     \<and> ((\<exists>d \<in> set (intermediate_folders (create_path h params)). blocked a d) \<longrightarrow>
          (\<exists>e a'. rpcNoteCreate h params a v = (Inl e, a')
             \<and> getAbstractFileByPath a' (create_path h params)
                 = getAbstractFileByPath a (create_path h params)
             \<and> (\<forall>p t. Create p t \<in> set (journal a') \<longrightarrow> Create p t \<in> set (journal a))))
     \<and> (\<not> missing a (create_path h params) \<longrightarrow>
          (\<exists>e a'. rpcNoteCreate h params a v = (Inl e, a')
             \<and> getAbstractFileByPath a' (create_path h params)
                 = getAbstractFileByPath a (create_path h params)
             \<and> (\<forall>p t. Create p t \<in> set (journal a') \<longrightarrow> Create p t \<in> set (journal a))))"
proof (intro conjI impI)
  assume "missing a (create_path h params)
          \<and> (\<forall>d \<in> set (intermediate_folders (create_path h params)). \<not> blocked a d)"
  then show "\<exists>a' f. rpcNoteCreate h params a v
                     = (Inr (Created \<lparr>created_path = create_path h params,
                                       created_title = basename_of (create_path h params),
                                       created_mtime = clock a, created = True\<rparr>), a')
             \<and> journal a' = journal a
                   @ map CreateFolder (filter (missing a) (intermediate_folders (create_path h params)))
                   @ [Create (create_path h params) (noteContent h (heading_param h params) (body_param params))]
             \<and> (\<forall>d \<in> set (intermediate_folders (create_path h params)).
                   \<exists>x. getAbstractFileByPath a' d = Some (AFolder x))
             \<and> getAbstractFileByPath a' (create_path h params) = Some (AFile f)
             \<and> content f = ''# '' @ heading_param h params @ [CHR 0x0A, CHR 0x0A]
                              @ trimEnd h (body_param params) @ [CHR 0x0A]
             \<and> (\<forall>v'. rpcNoteCreate h params a' v'
                    = (Inl (Error (''File already exists: '' @ create_path h params)), a'))"
    using noteCreate_creates [OF assms, of a v] by blast
next
  assume "\<exists>d \<in> set (intermediate_folders (create_path h params)). blocked a d"
  then show "\<exists>e a'. rpcNoteCreate h params a v = (Inl e, a')
             \<and> getAbstractFileByPath a' (create_path h params)
                 = getAbstractFileByPath a (create_path h params)
             \<and> (\<forall>p t. Create p t \<in> set (journal a') \<longrightarrow> Create p t \<in> set (journal a))"
    by (rule noteCreate_blocked [OF assms])
next
  assume "\<not> missing a (create_path h params)"
  then show "\<exists>e a'. rpcNoteCreate h params a v = (Inl e, a')
             \<and> getAbstractFileByPath a' (create_path h params)
                 = getAbstractFileByPath a (create_path h params)
             \<and> (\<forall>p t. Create p t \<in> set (journal a') \<longrightarrow> Create p t \<in> set (journal a))"
    by (rule noteCreate_occupied [OF assms])
qed

theorem note_create_contract_witness:
  "valid_create sample_host
     (Some (JObj [(''path'', JStr ''a/b/c.md''), (''heading'', JStr '' H ''), (''body'', JStr ''text  '')]))
   \<and> intermediate_folders ''a/b/c.md'' = [''a'', ''a/b'']
   \<and> (\<exists>a'. snd (rpcNoteCreate sample_host
          (Some (JObj [(''path'', JStr ''a/b/c.md''), (''heading'', JStr '' H ''), (''body'', JStr ''text  '')]))
          empty_app 0) = a'
        \<and> journal a' = [CreateFolder ''a'', CreateFolder ''a/b'',
                         Create ''a/b/c.md'' (''# H'' @ [CHR 0x0A, CHR 0x0A] @ ''text'' @ [CHR 0x0A])]
        \<and> fst (rpcNoteCreate sample_host
          (Some (JObj [(''path'', JStr ''a/b/c.md''), (''heading'', JStr '' H ''), (''body'', JStr ''text  '')]))
          a' 0) = Inl (Error ''File already exists: a/b/c.md''))
   \<and> blocked sample_app ''n.md''
   \<and> (\<exists>e. fst (rpcNoteCreate sample_host
          (Some (JObj [(''path'', JStr ''n.md/x.md''), (''heading'', JStr ''H'')])) sample_app 0) = Inl e)
   \<and> \<not> missing occupied_app ''d.md''
   \<and> rpcNoteCreate sample_host
          (Some (JObj [(''path'', JStr ''d.md''), (''heading'', JStr ''H'')])) occupied_app 0
       = (Inl (Error ''File already exists.''), occupied_app)
   \<and> rpcNoteCreate sample_host
          (Some (JObj [(''path'', JStr ''n.md''), (''heading'', JStr ''H'')])) sample_app 0
       = (Inl (Error ''File already exists: n.md''), sample_app)"
proof -
  let ?P = "Some (JObj [(''path'', JStr ''a/b/c.md''), (''heading'', JStr '' H ''), (''body'', JStr ''text  '')])"
  let ?Q = "Some (JObj [(''path'', JStr ''n.md/x.md''), (''heading'', JStr ''H'')])"
  have v: "valid_create sample_host ?P" by code_simp
  have p: "create_path sample_host ?P = ''a/b/c.md''" by code_simp
  have hb: "heading_param sample_host ?P = ''H''" "body_param ?P = ''text  ''"
    "trimEnd sample_host ''text  '' = ''text''"
    by code_simp+
  have ds: "intermediate_folders ''a/b/c.md'' = [''a'', ''a/b'']" by code_simp
  have m: "missing empty_app ''a/b/c.md''" "missing empty_app ''a''" "missing empty_app ''a/b''"
    by (simp_all add: missing_def getAbstractFileByPath_def empty_app_def)
  have nb: "\<forall>d \<in> set (intermediate_folders ''a/b/c.md''). \<not> blocked empty_app d"
    by (simp add: blocked_def getAbstractFileByPath_def empty_app_def)
  have j0: "journal empty_app = []" by (simp add: empty_app_def)
  from note_create_contract [OF v, of empty_app 0] m(1) nb p
  obtain a' f where r: "rpcNoteCreate sample_host ?P empty_app 0
                     = (Inr (Created \<lparr>created_path = ''a/b/c.md'',
                                       created_title = basename_of ''a/b/c.md'',
                                       created_mtime = clock empty_app, created = True\<rparr>), a')"
     "journal a' = journal empty_app
                   @ map CreateFolder (filter (missing empty_app) (intermediate_folders ''a/b/c.md''))
                   @ [Create ''a/b/c.md'' (noteContent sample_host (heading_param sample_host ?P) (body_param ?P))]"
     "\<forall>v'. rpcNoteCreate sample_host ?P a' v' = (Inl (Error (''File already exists: '' @ ''a/b/c.md'')), a')"
    by auto
  have first: "\<exists>a'. snd (rpcNoteCreate sample_host ?P empty_app 0) = a'
        \<and> journal a' = [CreateFolder ''a'', CreateFolder ''a/b'',
                         Create ''a/b/c.md'' (''# H'' @ [CHR 0x0A, CHR 0x0A] @ ''text'' @ [CHR 0x0A])]
        \<and> fst (rpcNoteCreate sample_host ?P a' 0) = Inl (Error ''File already exists: a/b/c.md'')"
    using r by (simp add: ds m j0 hb noteContent_def)
  have vq: "valid_create sample_host ?Q" by code_simp
  have pq: "create_path sample_host ?Q = ''n.md/x.md''" by code_simp
  have dq: "intermediate_folders ''n.md/x.md'' = [''n.md'']" by code_simp
  have bq: "blocked sample_app ''n.md''"
    by (simp add: blocked_def getAbstractFileByPath_def sample_app_def is_folder_def)
  from note_create_contract [OF vq, of sample_app 0] pq dq bq
  have second: "\<exists>e. fst (rpcNoteCreate sample_host ?Q sample_app 0) = Inl e"
    by auto
  let ?R = "Some (JObj [(''path'', JStr ''d.md''), (''heading'', JStr ''H'')])"
  have vr: "valid_create sample_host ?R" by code_simp
  have pr: "create_path sample_host ?R = ''d.md''" by code_simp
  have mr: "\<not> missing occupied_app ''d.md''" by code_simp
  from note_create_contract [OF vr, of occupied_app 0] pr mr
  obtain e a' where fails: "rpcNoteCreate sample_host ?R occupied_app 0 = (Inl e, a')"
    by auto
  have "rpcNoteCreate sample_host ?R occupied_app 0
       = (Inl (Error ''File already exists.''), occupied_app)"
    by code_simp
  with fails have third: "rpcNoteCreate sample_host ?R occupied_app 0
       = (Inl (Error ''File already exists.''), occupied_app)"
    by simp
  have fourth: "rpcNoteCreate sample_host
          (Some (JObj [(''path'', JStr ''n.md''), (''heading'', JStr ''H'')])) sample_app 0
       = (Inl (Error ''File already exists: n.md''), sample_app)"
    by code_simp
  from v ds first bq second mr third fourth show ?thesis by blast
qed

text \<open>
  The claim as stated ("for every call ... the content begins with \<open># \<close> followed by the
  heading, a blank line, then the body") is false.  With an empty heading, or one
  that is a no-break space only, the call fails with \<open>Missing params.heading\<close> and creates
  nothing.  With the heading \<open>" H"\<close> and the body
  \<open>"text "\<close> the file is created with the content \<open># H\<close>, a blank line, \<open>text\<close> and a newline:
  the heading and the body are trimmed before they are written, so the content does not
  begin with \<open># \<close> followed by the heading as passed.
\<close>

theorem note_create_trims_and_validates:
  "rpcNoteCreate sample_host
     (Some (JObj [(''path'', JStr ''a/b/c.md''), (''heading'', JStr ''''), (''body'', JStr ''text'')]))
     empty_app 0
     = (Inl (Error ''Missing params.heading''), empty_app)
   \<and> rpcNoteCreate sample_host
         (Some (JObj [(''path'', JStr ''a/b/c.md''), (''heading'', JStr [CHR 0xA0]), (''body'', JStr ''text'')]))
         empty_app 0
     = (Inl (Error ''Missing params.heading''), empty_app)
   \<and> rpcNoteCreate sample_host
         (Some (JObj [(''path'', JStr ''a/b/c.md''), (''heading'', JStr '' H''), (''body'', JStr ''text '')]))
         empty_app 0
     = (Inr (Created \<lparr>created_path = ''a/b/c.md'', created_title = ''c'', created_mtime = 0, created = True\<rparr>),
        \<lparr>vault = [(''a'', AFolder ''a''), (''a/b'', AFolder ''a/b''),
                  (''a/b/c.md'', AFile \<lparr>path = ''a/b/c.md'', basename = ''c'', extension = ''md'',
                                        stat = Some 0,
                                        content = ''# H'' @ [CHR 0x0A, CHR 0x0A] @ ''text'' @ [CHR 0x0A]\<rparr>)],
         metadataCache = [], resolvedLinks = None, clock = 0,
         journal = [CreateFolder ''a'', CreateFolder ''a/b'',
                    Create ''a/b/c.md'' (''# H'' @ [CHR 0x0A, CHR 0x0A] @ ''text'' @ [CHR 0x0A])]\<rparr>)
   \<and> \<not> prefix (''# '' @ '' H'' @ [CHR 0x0A, CHR 0x0A] @ ''text '')
               (''# H'' @ [CHR 0x0A, CHR 0x0A] @ ''text'' @ [CHR 0x0A])"
  by code_simp


end
